theory Spec2Isabelle
  imports Main
begin

section \<open>Data model of \<open>game_logic.py\<close>\<close>

text \<open>
  A coordinate is the Python tuple \<open>(x, y)\<close> of two unbounded integers: \<open>x\<close> is the
  column, \<open>y\<close> the row, and the grid is indexed \<open>grid[y][x]\<close>.
\<close>

type_synonym cell = "int \<times> int"

datatype error = IndexError | ValueError | KeyError | TypeError

text \<open>
  The attributes of \<open>MinesweeperLogic\<close>, in the order \<open>__init__\<close> assigns them.
  The three Python sets are HOL sets.
\<close>

record board =
  width :: int
  height :: int
  num_mines :: int
  grid :: "int list list"
  mine_positions :: "cell set"
  first_move :: bool
  revealed :: "cell set"
  flagged :: "cell set"
  game_over :: bool
  won :: bool
  time_started :: "int option"
  game_time :: int
  mines_remaining :: int

text \<open>\<open>range(n)\<close>: the integers \<open>0, ..., n - 1\<close>, empty when \<open>n \<le> 0\<close>.\<close>

definition py_range :: "int \<Rightarrow> int list" where
  "py_range n = map int [0..<nat n]"

text \<open>
  Python indexing \<open>xs[i]\<close>: a negative index counts from the end, and an index outside
  \<open>-len(xs) .. len(xs) - 1\<close> raises \<open>IndexError\<close>. \<open>py_index\<close> is the position read.
\<close>

definition py_index :: "'a list \<Rightarrow> int \<Rightarrow> nat option" where
  "py_index xs i =
     (if 0 \<le> i \<and> i < int (length xs) then Some (nat i)
      else if - int (length xs) \<le> i \<and> i < 0 then Some (nat (int (length xs) + i))
      else None)"

definition py_get :: "'a list \<Rightarrow> int \<Rightarrow> error + 'a" where
  "py_get xs i = (case py_index xs i of None \<Rightarrow> Inl IndexError | Some j \<Rightarrow> Inr (xs ! j))"

definition py_set :: "'a list \<Rightarrow> int \<Rightarrow> 'a \<Rightarrow> error + 'a list" where
  "py_set xs i v = (case py_index xs i of None \<Rightarrow> Inl IndexError | Some j \<Rightarrow> Inr (xs[j := v]))"

text \<open>\<open>initialize_grid\<close> and \<open>__init__\<close>.\<close>

definition initialize_grid :: "board \<Rightarrow> board" where
  "initialize_grid b =
     b\<lparr>grid := map (\<lambda>_. map (\<lambda>_. 0) (py_range (width b))) (py_range (height b))\<rparr>"

definition init :: "int \<Rightarrow> int \<Rightarrow> int \<Rightarrow> board" where
  "init w h n =
     initialize_grid
       \<lparr>width = w, height = h, num_mines = n, grid = [], mine_positions = {},
        first_move = True, revealed = {}, flagged = {}, game_over = False, won = False,
        time_started = None, game_time = 0, mines_remaining = n\<rparr>"

text \<open>
  \<open>get_adjacent_squares\<close>: the two nested loops over \<open>dx\<close> and \<open>dy\<close>, keeping the
  offsets that stay inside \<open>0 \<le> new_x < width\<close>, \<open>0 \<le> new_y < height\<close>.
\<close>

definition get_adjacent_squares :: "board \<Rightarrow> int \<Rightarrow> int \<Rightarrow> cell list" where
  "get_adjacent_squares b x y =
     [(x + dx, y + dy). dx \<leftarrow> [-1, 0, 1], dy \<leftarrow> [-1, 0, 1],
        0 \<le> x + dx \<and> x + dx < width b \<and> 0 \<le> y + dy \<and> y + dy < height b \<and> (dx, dy) \<noteq> (0, 0)]"

text \<open>
  \<open>count_adjacent_mines\<close>: the same two loops, adding one for each in-grid offset
  other than \<open>(0, 0)\<close> whose cell is in \<open>mine_positions\<close>.
\<close>

definition count_adjacent_mines :: "board \<Rightarrow> int \<Rightarrow> int \<Rightarrow> int" where
  "count_adjacent_mines b x y =
     fold (\<lambda>dx count. fold (\<lambda>dy count.
        if 0 \<le> x + dx \<and> x + dx < width b \<and> 0 \<le> y + dy \<and> y + dy < height b \<and>
           (dx, dy) \<noteq> (0, 0) \<and> (x + dx, y + dy) \<in> mine_positions b
        then count + 1 else count) [-1, 0, 1] count) [-1, 0, 1] 0"

definition is_mine :: "board \<Rightarrow> int \<Rightarrow> int \<Rightarrow> bool" where
  "is_mine b x y \<longleftrightarrow> (x, y) \<in> mine_positions b"

text \<open>\<open>get_value\<close> reads \<open>self.grid[y][x]\<close>; either index may raise.\<close>

definition get_value :: "board \<Rightarrow> int \<Rightarrow> int \<Rightarrow> error + int" where
  "get_value b x y =
     (case py_get (grid b) y of Inl e \<Rightarrow> Inl e | Inr row \<Rightarrow> py_get row x)"

subsection \<open>Flagging\<close>

text \<open>\<open>toggle_flag\<close> returns its boolean and the board after the call.\<close>

definition toggle_flag :: "board \<Rightarrow> int \<Rightarrow> int \<Rightarrow> bool \<times> board" where
  "toggle_flag b x y =
     (if (x, y) \<in> revealed b then (False, b)
      else if (x, y) \<in> flagged b
        then (False, b\<lparr>flagged := flagged b - {(x, y)}, mines_remaining := mines_remaining b + 1\<rparr>)
        else (True, b\<lparr>flagged := insert (x, y) (flagged b), mines_remaining := mines_remaining b - 1\<rparr>))"

subsection \<open>Reveal and flood expansion\<close>

text \<open>
  The frontier of the flood expansion is a Python list. The source pops from its end
  (\<open>LIFO\<close>); the specification also allows a queue, which pops from the front
  (\<open>FIFO\<close>). Both push at the end.
\<close>

datatype frontier = LIFO | FIFO

fun pop_cell :: "frontier \<Rightarrow> cell list \<Rightarrow> cell" where
  "pop_cell LIFO st = last st"
| "pop_cell FIFO st = hd st"

fun pop_rest :: "frontier \<Rightarrow> cell list \<Rightarrow> cell list" where
  "pop_rest LIFO st = butlast st"
| "pop_rest FIFO st = tl st"

text \<open>
  The body of the \<open>for adj_x, adj_y in ...\<close> loop, over the remaining neighbours. The
  board carries \<open>self.revealed\<close>; \<open>nr\<close> is \<open>newly_revealed\<close> and \<open>st\<close> the frontier.
  Reading \<open>self.grid[adj_y][adj_x]\<close> may raise, after the neighbour was added to
  \<open>revealed\<close>: the board at the raise is returned with the error.
\<close>

fun reveal_adjacent ::
  "board \<Rightarrow> cell set \<Rightarrow> cell list \<Rightarrow> cell list \<Rightarrow> (error + cell set \<times> cell list) \<times> board" where
  "reveal_adjacent b nr st [] = (Inr (nr, st), b)"
| "reveal_adjacent b nr st ((ax, ay) # rest) =
     (if (ax, ay) \<notin> revealed b \<and> (ax, ay) \<notin> flagged b then
        (let b1 = b\<lparr>revealed := insert (ax, ay) (revealed b)\<rparr>;
             nr1 = insert (ax, ay) nr
         in case get_value b1 ax ay of
              Inl e \<Rightarrow> (Inl e, b1)
            | Inr v \<Rightarrow> reveal_adjacent b1 nr1 (if v = 0 then st @ [(ax, ay)] else st) rest)
      else reveal_adjacent b nr st rest)"

text \<open>
  The \<open>while stack\<close> loop. Every neighbour handed to the inner loop lies inside
  \<open>0 \<le> x < width\<close>, \<open>0 \<le> y < height\<close>, and a cell is pushed only when it has just
  been added to \<open>revealed\<close>; so the number of unrevealed cells of that rectangle plus
  the length of the frontier decreases with every pop, and the loop is total.
\<close>

definition grid_cells :: "board \<Rightarrow> cell set" where
  "grid_cells b = {0..<width b} \<times> {0..<height b}"

lemma finite_grid_cells: "finite (grid_cells b)"
  by (simp add: grid_cells_def)

lemma get_adjacent_squares_in_grid: "set (get_adjacent_squares b x y) \<subseteq> grid_cells b"
  by (auto simp: get_adjacent_squares_def grid_cells_def)

lemma reveal_adjacent_dims:
  "reveal_adjacent b nr st adjs = (r, b1) \<Longrightarrow> grid_cells b1 = grid_cells b"
  by (induction b nr st adjs rule: reveal_adjacent.induct)
     (auto simp: grid_cells_def Let_def split: if_splits sum.splits)

lemma reveal_adjacent_measure:
  "reveal_adjacent b nr st adjs = (Inr (nr1, st1), b1) \<Longrightarrow> set adjs \<subseteq> grid_cells b \<Longrightarrow>
   card (grid_cells b - revealed b1) + length st1 \<le> card (grid_cells b - revealed b) + length st"
proof (induction adjs arbitrary: b nr st)
  case Nil
  then show ?case by simp
next
  case (Cons a rest)
  obtain ax ay where a: "a = (ax, ay)" by (cases a)
  show ?case
  proof (cases "(ax, ay) \<notin> revealed b \<and> (ax, ay) \<notin> flagged b")
    case False
    with Cons a show ?thesis by auto
  next
    case True
    define b' where "b' = b\<lparr>revealed := insert (ax, ay) (revealed b)\<rparr>"
    from Cons.prems(1) True a obtain v where v: "get_value b' ax ay = Inr v"
      and rec: "reveal_adjacent b' (insert (ax, ay) nr) (if v = 0 then st @ [(ax, ay)] else st) rest
                 = (Inr (nr1, st1), b1)"
      by (auto simp: Let_def b'_def split: sum.splits)
    have gc: "grid_cells b' = grid_cells b" by (simp add: grid_cells_def b'_def)
    from Cons.prems(2) have sub: "set rest \<subseteq> grid_cells b'" and ain: "(ax, ay) \<in> grid_cells b"
      using a gc by auto
    have step: "card (grid_cells b - revealed b') + 1 = card (grid_cells b - revealed b)"
    proof -
      have "grid_cells b - revealed b = insert (ax, ay) (grid_cells b - revealed b')"
        using True ain by (auto simp: b'_def)
      moreover have "(ax, ay) \<notin> grid_cells b - revealed b'" by (simp add: b'_def)
      ultimately show ?thesis using finite_grid_cells[of b] by simp
    qed
    from Cons.IH[OF rec sub]
    have "card (grid_cells b - revealed b1) + length st1
          \<le> card (grid_cells b - revealed b') + length (if v = 0 then st @ [(ax, ay)] else st)"
      by (simp add: gc)
    also have "\<dots> \<le> card (grid_cells b - revealed b') + 1 + length st" by simp
    finally show ?thesis using step by simp
  qed
qed

function flood :: "frontier \<Rightarrow> board \<Rightarrow> cell set \<Rightarrow> cell list \<Rightarrow> (error + cell set) \<times> board" where
  "flood k b nr st =
     (if st = [] then (Inr nr, b)
      else case pop_cell k st of (curr_x, curr_y) \<Rightarrow>
        (case reveal_adjacent b nr (pop_rest k st) (get_adjacent_squares b curr_x curr_y) of
           (Inl e, b1) \<Rightarrow> (Inl e, b1)
         | (Inr (nr1, st1), b1) \<Rightarrow> flood k b1 nr1 st1))"
  by pat_completeness auto
termination
proof (relation "measure (\<lambda>(k, b, nr, st). card (grid_cells b - revealed b) + length st)")
  show "wf (measure (\<lambda>(k, b, nr, st). card (grid_cells b - revealed b) + length st))" by simp
next
  fix k :: frontier and b nr st x1 x2 x b1 y nr1 st1
  assume ne: "st \<noteq> []"
    and "(x1, x2) = pop_cell k st"
    and r: "(x, b1) = reveal_adjacent b nr (pop_rest k st) (get_adjacent_squares b x1 x2)"
    and "x = Inr y" and "(nr1, st1) = y"
  then have ra: "reveal_adjacent b nr (pop_rest k st) (get_adjacent_squares b x1 x2)
                  = (Inr (nr1, st1), b1)"
    by simp
  have len: "length (pop_rest k st) < length st"
    using ne by (cases k) (auto simp: length_greater_0_conv)
  from reveal_adjacent_measure[OF ra get_adjacent_squares_in_grid] reveal_adjacent_dims[OF ra] len
  show "((k, b1, nr1, st1), k, b, nr, st)
          \<in> measure (\<lambda>(k, b, nr, st). card (grid_cells b - revealed b) + length st)"
    by simp
qed

declare flood.simps [simp del]

text \<open>
  \<open>reveal_square\<close> returns the set (or the exception raised) together with the board
  after the call. \<open>reveal_with\<close> is the method with the frontier discipline as a
  parameter; the source is the instance that pops from the end.
\<close>

definition reveal_with :: "frontier \<Rightarrow> board \<Rightarrow> int \<Rightarrow> int \<Rightarrow> (error + cell set) \<times> board" where
  "reveal_with k b x y =
     (if (x, y) \<in> revealed b \<or> (x, y) \<in> flagged b then (Inr {}, b)
      else
        (let b1 = b\<lparr>revealed := insert (x, y) (revealed b)\<rparr>
         in case get_value b1 x y of
              Inl e \<Rightarrow> (Inl e, b1)
            | Inr v \<Rightarrow> if v = 0 then flood k b1 {(x, y)} [(x, y)] else (Inr {(x, y)}, b1)))"

definition reveal_square :: "board \<Rightarrow> int \<Rightarrow> int \<Rightarrow> (error + cell set) \<times> board" where
  "reveal_square = reveal_with LIFO"

text \<open>The variant the specification allows: the same method with a queue as frontier.\<close>

definition reveal_square_queue :: "board \<Rightarrow> int \<Rightarrow> int \<Rightarrow> (error + cell set) \<times> board" where
  "reveal_square_queue = reveal_with FIFO"

subsection \<open>Mine placement\<close>

text \<open>A loop whose body may raise: the first exception ends it.\<close>

fun fold_err :: "('a \<Rightarrow> 's \<Rightarrow> error + 's) \<Rightarrow> 'a list \<Rightarrow> 's \<Rightarrow> error + 's" where
  "fold_err f [] s = Inr s"
| "fold_err f (x # xs) s = (case f x s of Inl e \<Rightarrow> Inl e | Inr s' \<Rightarrow> fold_err f xs s')"

text \<open>The assignment \<open>self.grid[y][x] = v\<close>.\<close>

definition set_cell :: "int list list \<Rightarrow> int \<Rightarrow> int \<Rightarrow> int \<Rightarrow> error + int list list" where
  "set_cell g x y v =
     (case py_index g y of
        None \<Rightarrow> Inl IndexError
      | Some j \<Rightarrow> (case py_set (g ! j) x v of Inl e \<Rightarrow> Inl e | Inr row \<Rightarrow> Inr (g[j := row])))"

definition safe_zone :: "board \<Rightarrow> int \<Rightarrow> int \<Rightarrow> cell set" where
  "safe_zone b first_click_x first_click_y =
     insert (first_click_x, first_click_y) (set (get_adjacent_squares b first_click_x first_click_y))"

definition available_positions :: "board \<Rightarrow> int \<Rightarrow> int \<Rightarrow> cell list" where
  "available_positions b first_click_x first_click_y =
     [(x, y). x \<leftarrow> py_range (width b), y \<leftarrow> py_range (height b),
        (x, y) \<notin> safe_zone b first_click_x first_click_y]"

text \<open>
  \<open>random.sample(population, k)\<close> returns \<open>k\<close> elements taken at distinct positions of
  the population, and raises \<open>ValueError\<close> when \<open>k\<close> is negative or exceeds its length.
  The random source is a parameter \<open>sample\<close> of the model; \<open>is_sample\<close> says what a
  result of \<open>random.sample\<close> on a duplicate-free population satisfies.
\<close>

definition is_sample :: "'a list \<Rightarrow> nat \<Rightarrow> 'a list \<Rightarrow> bool" where
  "is_sample population k xs \<longleftrightarrow> length xs = k \<and> distinct xs \<and> set xs \<subseteq> set population"

text \<open>
  \<open>place_mines\<close>. The loop \<open>for x, y in self.mine_positions\<close> runs over a set, in an
  order Python does not fix; every iteration writes the same constant, and the model
  takes the cells in the order of the sample. The board left behind by a raise is not
  part of the result.
\<close>

definition place_mines ::
  "(cell list \<Rightarrow> nat \<Rightarrow> cell list) \<Rightarrow> board \<Rightarrow> int \<Rightarrow> int \<Rightarrow> error + board" where
  "place_mines sample b first_click_x first_click_y =
     (let available = available_positions b first_click_x first_click_y;
          k = min (num_mines b) (int (length available))
      in if k < 0 then Inl ValueError
         else
           (let selected_positions = sample available (nat k);
                b1 = b\<lparr>mine_positions := set selected_positions\<rparr>
            in case fold_err (\<lambda>(x, y) g. set_cell g x y (- 1)) selected_positions (grid b1) of
                 Inl e \<Rightarrow> Inl e
               | Inr g1 \<Rightarrow>
                   (case fold_err (\<lambda>y g. fold_err (\<lambda>x g.
                            if (x, y) \<notin> mine_positions b1
                            then set_cell g x y (count_adjacent_mines b1 x y) else Inr g)
                          (py_range (width b1)) g) (py_range (height b1)) g1 of
                      Inl e \<Rightarrow> Inl e
                    | Inr g2 \<Rightarrow> Inr (b1\<lparr>grid := g2\<rparr>))))"

subsection \<open>Win test and click handling of \<open>gui.py\<close>\<close>

text \<open>\<open>MinesweeperGUI.check_win\<close>, on the board the window holds.\<close>

definition check_win :: "board \<Rightarrow> bool" where
  "check_win b \<longleftrightarrow> int (card (revealed b)) = width b * height b - num_mines b"

text \<open>
  The game logic of \<open>MinesweeperGUI.handle_click\<close>, without the widget updates: a click
  on a flagged square is dropped; the first click places the mines; a click on a mine
  ends the game through the window's \<open>game_over\<close> method, which changes no attribute of
  the board, and \<open>reveal_square\<close> is not called; any other click reveals and then tests
  for a win.
\<close>

datatype click = Ignored | Exploded | Opened "cell set" bool

definition handle_click ::
  "(cell list \<Rightarrow> nat \<Rightarrow> cell list) \<Rightarrow> board \<Rightarrow> int \<Rightarrow> int \<Rightarrow> error + click \<times> board" where
  "handle_click sample b x y =
     (if (x, y) \<in> flagged b then Inr (Ignored, b)
      else
        case (if first_move b
              then (case place_mines sample b x y of
                      Inl e \<Rightarrow> Inl e
                    | Inr b1 \<Rightarrow> Inr (b1\<lparr>first_move := False\<rparr>))
              else Inr b) of
          Inl e \<Rightarrow> Inl e
        | Inr b1 \<Rightarrow>
            if is_mine b1 x y then Inr (Exploded, b1)
            else (case reveal_square b1 x y of
                    (Inl e, b2) \<Rightarrow> Inl e
                  | (Inr newly_revealed, b2) \<Rightarrow> Inr (Opened newly_revealed (check_win b2), b2)))"

subsection \<open>Saving and loading\<close>

text \<open>
  The dictionary of \<open>get_save_state\<close>, one field per key. A field is \<open>None\<close> when the
  key is absent, which \<open>state['key']\<close> answers with \<open>KeyError\<close>.

  Nine of the twelve entries are assigned as they are, so their fields have the type
  of the attribute. The three position entries are computed with: they go through
  \<open>set(tuple(pos) for pos in state[...])\<close>, which raises \<open>TypeError\<close> when the entry
  cannot be iterated and when \<open>tuple(pos)\<close> cannot be built for one of its elements.
  An element is a pair of integers (\<open>Coord\<close>) or a value that cannot be iterated, such
  as a number, a boolean or \<open>null\<close> (\<open>Scalar\<close>); the entry is a list of elements
  (\<open>Positions\<close>) or itself a value that cannot be iterated (\<open>NoList\<close>). Elements of
  other shapes, such as triples or strings, which \<open>tuple\<close> accepts and which no
  attribute of type \<open>cell set\<close> can hold, are outside this model.
\<close>

datatype position = Coord int int | Scalar

datatype position_list = Positions "position list" | NoList

record save_state =
  key_width :: "int option"
  key_height :: "int option"
  key_num_mines :: "int option"
  key_grid :: "int list list option"
  key_mine_positions :: "position_list option"
  key_first_move :: "bool option"
  key_revealed :: "position_list option"
  key_flagged :: "position_list option"
  key_game_over :: "bool option"
  key_won :: "bool option"
  key_game_time :: "int option"
  key_mines_remaining :: "int option"

text \<open>
  \<open>list(a_set)\<close> lists the elements of a set in an order Python does not fix: the
  enumeration \<open>enum\<close> is a parameter of \<open>get_save_state\<close>. Every element it lists is
  a pair of integers.
\<close>

definition listed :: "cell list \<Rightarrow> position_list" where
  "listed cs = Positions (map (\<lambda>(x, y). Coord x y) cs)"

definition get_save_state :: "(cell set \<Rightarrow> cell list) \<Rightarrow> board \<Rightarrow> save_state" where
  "get_save_state enum b =
     \<lparr>key_width = Some (width b), key_height = Some (height b),
      key_num_mines = Some (num_mines b), key_grid = Some (grid b),
      key_mine_positions = Some (listed (enum (mine_positions b))),
      key_first_move = Some (first_move b),
      key_revealed = Some (listed (enum (revealed b))),
      key_flagged = Some (listed (enum (flagged b))),
      key_game_over = Some (game_over b), key_won = Some (won b),
      key_game_time = Some (game_time b), key_mines_remaining = Some (mines_remaining b)\<rparr>"

text \<open>
  \<open>set(tuple(pos) for pos in v)\<close>: the elements are taken in order, and the first one
  that cannot be iterated raises.
\<close>

fun tuples :: "position list \<Rightarrow> error + cell list" where
  "tuples [] = Inr []"
| "tuples (Coord x y # ps) = (case tuples ps of Inl e \<Rightarrow> Inl e | Inr cs \<Rightarrow> Inr ((x, y) # cs))"
| "tuples (Scalar # ps) = Inl TypeError"

fun cells_of :: "position_list \<Rightarrow> error + cell set" where
  "cells_of NoList = Inl TypeError"
| "cells_of (Positions ps) = (case tuples ps of Inl e \<Rightarrow> Inl e | Inr cs \<Rightarrow> Inr (set cs))"

text \<open>
  \<open>load_save_state\<close> runs twelve assignments \<open>self.attr = ... state['key'] ...\<close> one
  after the other. An assignment whose right-hand side raises, for a missing key or
  for a position entry that cannot be read, ends the method with the earlier
  assignments done and this one and the later ones not.
\<close>

definition assign_key ::
  "'a option \<Rightarrow> ('a \<Rightarrow> error + 'c) \<Rightarrow> ('c \<Rightarrow> board \<Rightarrow> board) \<Rightarrow>
   (error + unit) \<times> board \<Rightarrow> (error + unit) \<times> board" where
  "assign_key entry rhs assign rb =
     (case rb of
        (Inl e, b) \<Rightarrow> (Inl e, b)
      | (Inr u, b) \<Rightarrow>
          (case entry of
             None \<Rightarrow> (Inl KeyError, b)
           | Some v \<Rightarrow> (case rhs v of Inl e \<Rightarrow> (Inl e, b) | Inr w \<Rightarrow> (Inr (), assign w b))))"

definition load_save_state :: "board \<Rightarrow> save_state \<Rightarrow> (error + unit) \<times> board" where
  "load_save_state b0 state =
     fold (\<lambda>statement rb. statement rb)
       [assign_key (key_width state) Inr (\<lambda>v b. b\<lparr>width := v\<rparr>),
        assign_key (key_height state) Inr (\<lambda>v b. b\<lparr>height := v\<rparr>),
        assign_key (key_num_mines state) Inr (\<lambda>v b. b\<lparr>num_mines := v\<rparr>),
        assign_key (key_grid state) Inr (\<lambda>v b. b\<lparr>grid := v\<rparr>),
        assign_key (key_mine_positions state) cells_of (\<lambda>v b. b\<lparr>mine_positions := v\<rparr>),
        assign_key (key_first_move state) Inr (\<lambda>v b. b\<lparr>first_move := v\<rparr>),
        assign_key (key_revealed state) cells_of (\<lambda>v b. b\<lparr>revealed := v\<rparr>),
        assign_key (key_flagged state) cells_of (\<lambda>v b. b\<lparr>flagged := v\<rparr>),
        assign_key (key_game_over state) Inr (\<lambda>v b. b\<lparr>game_over := v\<rparr>),
        assign_key (key_won state) Inr (\<lambda>v b. b\<lparr>won := v\<rparr>),
        assign_key (key_game_time state) Inr (\<lambda>v b. b\<lparr>game_time := v\<rparr>),
        assign_key (key_mines_remaining state) Inr (\<lambda>v b. b\<lparr>mines_remaining := v\<rparr>)]
       (Inr (), b0)"

subsection \<open>Sequences of operations\<close>

text \<open>
  A caller issues \<open>reveal_square\<close> and \<open>toggle_flag\<close> one after the other; a raise
  leaves the board as it was at the raise, and the next call works on that board.
\<close>

datatype op = Reveal int int | ToggleFlag int int

datatype outcome = Revealed "error + cell set" | Toggled bool

fun apply_op :: "board \<Rightarrow> op \<Rightarrow> outcome \<times> board" where
  "apply_op b (Reveal x y) = (case reveal_square b x y of (r, b') \<Rightarrow> (Revealed r, b'))"
| "apply_op b (ToggleFlag x y) = (case toggle_flag b x y of (r, b') \<Rightarrow> (Toggled r, b'))"

fun run :: "board \<Rightarrow> op list \<Rightarrow> outcome list \<times> board" where
  "run b [] = ([], b)"
| "run b (p # ps) =
     (case apply_op b p of (r, b1) \<Rightarrow> (case run b1 ps of (rs, b2) \<Rightarrow> (r # rs, b2)))"

section \<open>Notions used in the statements\<close>

subsection \<open>Shapes, regions and neighbourhoods\<close>

text \<open>
  The grid of a board built by \<open>initialize_grid\<close> has \<open>height\<close> rows of \<open>width\<close>
  entries each; \<open>place_mines\<close> keeps that shape.
\<close>

definition well_shaped :: "board \<Rightarrow> bool" where
  "well_shaped b \<longleftrightarrow>
     length (grid b) = nat (height b) \<and> (\<forall>row \<in> set (grid b). length row = nat (width b))"

text \<open>The cells whose stored number is 0: the cells the flood expansion pushes.\<close>

definition zero_cell :: "board \<Rightarrow> cell \<Rightarrow> bool" where
  "zero_cell b c \<longleftrightarrow> get_value b (fst c) (snd c) = Inr 0"

text \<open>\<open>revealed\<close> and \<open>flagged\<close> have no common element.\<close>

definition flags_apart :: "board \<Rightarrow> bool" where
  "flags_apart b \<longleftrightarrow> revealed b \<inter> flagged b = {}"

text \<open>
  The up to eight neighbours of \<open>(x, y)\<close> inside the grid, described by distance
  rather than by the two loops of the source.
\<close>

definition neighbours :: "board \<Rightarrow> int \<Rightarrow> int \<Rightarrow> cell set" where
  "neighbours b x y =
     {(a, c). 0 \<le> a \<and> a < width b \<and> 0 \<le> c \<and> c < height b \<and>
              \<bar>a - x\<bar> \<le> 1 \<and> \<bar>c - y\<bar> \<le> 1 \<and> (a, c) \<noteq> (x, y)}"

text \<open>
  The cells the flood expansion started at \<open>c0\<close> is to reveal on board \<open>b\<close>, by
  connectivity: \<open>c0\<close> itself, and every neighbour of a reached cell holding 0,
  provided the neighbour was neither revealed nor flagged at the call.
\<close>

inductive_set region :: "board \<Rightarrow> cell \<Rightarrow> cell set" for b :: board and c0 :: cell where
  start: "c0 \<in> region b c0"
| step: "c \<in> region b c0 \<Longrightarrow> zero_cell b c \<Longrightarrow> c' \<in> neighbours b (fst c) (snd c) \<Longrightarrow>
         c' \<notin> revealed b \<Longrightarrow> c' \<notin> flagged b \<Longrightarrow> c' \<in> region b c0"

text \<open>
  The connected region of cells holding 0 that contains \<open>c0\<close>, whatever is revealed
  or flagged, and that region together with every neighbour of one of its cells.
\<close>

inductive_set zero_region :: "board \<Rightarrow> cell \<Rightarrow> cell set" for b :: board and c0 :: cell where
  origin: "c0 \<in> zero_region b c0"
| grow: "c \<in> zero_region b c0 \<Longrightarrow> c' \<in> neighbours b (fst c) (snd c) \<Longrightarrow>
         zero_cell b c' \<Longrightarrow> c' \<in> zero_region b c0"

definition region_with_border :: "board \<Rightarrow> cell \<Rightarrow> cell set" where
  "region_with_border b c0 =
     zero_region b c0 \<union> {c'. \<exists>c \<in> zero_region b c0. c' \<in> neighbours b (fst c) (snd c)}"

text \<open>
  The loop invariant of the \<open>while stack\<close> loop started on board \<open>b0\<close> at \<open>c0\<close>: the
  board differs from \<open>b0\<close> by the cells of \<open>newly_revealed\<close>, which are reachable;
  the frontier holds reached cells with number 0; and every reached cell with number
  0 that has left the frontier has had all its admissible neighbours added.
\<close>

definition flood_inv :: "board \<Rightarrow> cell \<Rightarrow> board \<Rightarrow> cell set \<Rightarrow> cell list \<Rightarrow> bool" where
  "flood_inv b0 c0 b nr st \<longleftrightarrow>
     b = b0\<lparr>revealed := revealed b0 \<union> nr\<rparr> \<and> c0 \<in> nr \<and> nr \<subseteq> region b0 c0 \<and>
     set st \<subseteq> nr \<and> (\<forall>c \<in> set st. zero_cell b0 c) \<and>
     (\<forall>c \<in> nr. zero_cell b0 c \<longrightarrow> c \<notin> set st \<longrightarrow>
        (\<forall>c' \<in> set (get_adjacent_squares b0 (fst c) (snd c)).
           c' \<notin> revealed b0 \<longrightarrow> c' \<notin> flagged b0 \<longrightarrow> c' \<in> nr))"

text \<open>
  The coordinates Python's indexing accepts on a grid of \<open>height\<close> rows of
  \<open>width\<close> entries: a negative index down to \<open>- len\<close> counts from the end.
\<close>

definition index_ok :: "board \<Rightarrow> int \<Rightarrow> int \<Rightarrow> bool" where
  "index_ok b x y \<longleftrightarrow> - width b \<le> x \<and> x < width b \<and> - height b \<le> y \<and> y < height b"

subsection \<open>Mine placement\<close>

text \<open>
  The list \<open>random.sample\<close> returns at the call \<open>place_mines\<close> makes, and the
  contract of \<open>random.sample\<close> at that call.
\<close>

definition selected :: "(cell list \<Rightarrow> nat \<Rightarrow> cell list) \<Rightarrow> board \<Rightarrow> int \<Rightarrow> int \<Rightarrow> cell list" where
  "selected sample b fx fy =
     sample (available_positions b fx fy)
       (nat (min (num_mines b) (int (length (available_positions b fx fy)))))"

definition sample_valid :: "(cell list \<Rightarrow> nat \<Rightarrow> cell list) \<Rightarrow> board \<Rightarrow> int \<Rightarrow> int \<Rightarrow> bool" where
  "sample_valid sample b fx fy \<longleftrightarrow>
     is_sample (available_positions b fx fy)
       (nat (min (num_mines b) (int (length (available_positions b fx fy)))))
       (selected sample b fx fy)"

text \<open>Two grids with the same number of rows and the same row lengths.\<close>

definition same_shape :: "'a list list \<Rightarrow> 'a list list \<Rightarrow> bool" where
  "same_shape g g' \<longleftrightarrow> length g' = length g \<and> (\<forall>j. length (g' ! j) = length (g ! j))"

text \<open>
  Three deterministic samplers: the first \<open>k\<close> candidates, the last \<open>k\<close>, and the
  first \<open>k\<close> of the candidates at even positions.
\<close>

definition pick_first :: "cell list \<Rightarrow> nat \<Rightarrow> cell list" where
  "pick_first xs k = take k xs"

definition pick_last :: "cell list \<Rightarrow> nat \<Rightarrow> cell list" where
  "pick_last xs k = take k (rev xs)"

definition pick_alternate :: "cell list \<Rightarrow> nat \<Rightarrow> cell list" where
  "pick_alternate xs k = take k (map fst (filter (\<lambda>(c, i). even i) (zip xs [0..<length xs])))"

subsection \<open>Snapshots\<close>

text \<open>A dictionary that has all twelve keys \<open>load_save_state\<close> reads.\<close>

definition all_keys :: "save_state \<Rightarrow> bool" where
  "all_keys s \<longleftrightarrow>
     key_width s \<noteq> None \<and> key_height s \<noteq> None \<and> key_num_mines s \<noteq> None \<and>
     key_grid s \<noteq> None \<and> key_mine_positions s \<noteq> None \<and> key_first_move s \<noteq> None \<and>
     key_revealed s \<noteq> None \<and> key_flagged s \<noteq> None \<and> key_game_over s \<noteq> None \<and>
     key_won s \<noteq> None \<and> key_game_time s \<noteq> None \<and> key_mines_remaining s \<noteq> None"

text \<open>
  A position entry that is present and is not a list of pairs, and the set of cells a
  position entry stands for when it is one.
\<close>

definition unreadable :: "position_list option \<Rightarrow> bool" where
  "unreadable entry \<longleftrightarrow>
     (case entry of
        None \<Rightarrow> False
      | Some NoList \<Rightarrow> True
      | Some (Positions ps) \<Rightarrow> Scalar \<in> set ps)"

definition snapshot_cells :: "position_list option \<Rightarrow> cell set" where
  "snapshot_cells entry =
     (case entry of
        Some (Positions ps) \<Rightarrow>
          set (concat (map (\<lambda>p. case p of Coord x y \<Rightarrow> [(x, y)] | Scalar \<Rightarrow> []) ps))
      | _ \<Rightarrow> {})"

text \<open>
  The twelve attributes in the order \<open>load_save_state\<close> assigns them, numbered from
  0, each with what stops the method at it: the key is missing (\<open>KeyError\<close>), or the
  entry is a position entry that cannot be read (\<open>TypeError\<close>). \<open>first_failure\<close> is
  the first of these that applies, with the number of the attribute.
\<close>

definition checks :: "save_state \<Rightarrow> (nat \<times> bool \<times> error) list" where
  "checks s =
     [(0, key_width s = None, KeyError), (1, key_height s = None, KeyError),
      (2, key_num_mines s = None, KeyError), (3, key_grid s = None, KeyError),
      (4, key_mine_positions s = None, KeyError),
      (4, unreadable (key_mine_positions s), TypeError),
      (5, key_first_move s = None, KeyError),
      (6, key_revealed s = None, KeyError), (6, unreadable (key_revealed s), TypeError),
      (7, key_flagged s = None, KeyError), (7, unreadable (key_flagged s), TypeError),
      (8, key_game_over s = None, KeyError), (9, key_won s = None, KeyError),
      (10, key_game_time s = None, KeyError), (11, key_mines_remaining s = None, KeyError)]"

definition first_failure :: "save_state \<Rightarrow> (nat \<times> error) option" where
  "first_failure s = map_option (\<lambda>(n, bad, e). (n, e)) (find (\<lambda>(n, bad, e). bad) (checks s))"

text \<open>
  The board \<open>b\<close> with its first \<open>n\<close> saved attributes, in the order of
  \<open>load_save_state\<close>, replaced by the entries of the snapshot, and the others as they
  were.
\<close>

definition restored :: "nat \<Rightarrow> board \<Rightarrow> save_state \<Rightarrow> board" where
  "restored n b s =
     b\<lparr>width := if 0 < n then the (key_width s) else width b,
       height := if 1 < n then the (key_height s) else height b,
       num_mines := if 2 < n then the (key_num_mines s) else num_mines b,
       grid := if 3 < n then the (key_grid s) else grid b,
       mine_positions := if 4 < n then snapshot_cells (key_mine_positions s) else mine_positions b,
       first_move := if 5 < n then the (key_first_move s) else first_move b,
       revealed := if 6 < n then snapshot_cells (key_revealed s) else revealed b,
       flagged := if 7 < n then snapshot_cells (key_flagged s) else flagged b,
       game_over := if 8 < n then the (key_game_over s) else game_over b,
       won := if 9 < n then the (key_won s) else won b,
       game_time := if 10 < n then the (key_game_time s) else game_time b,
       mines_remaining := if 11 < n then the (key_mines_remaining s) else mines_remaining b\<rparr>"

text \<open>
  A snapshot whose grid has \<open>height\<close> rows of \<open>width\<close> entries and no more mine
  positions than \<open>num_mines\<close>.
\<close>

definition snapshot_consistent :: "save_state \<Rightarrow> bool" where
  "snapshot_consistent s \<longleftrightarrow>
     (case (key_width s, key_height s, key_num_mines s, key_grid s, key_mine_positions s) of
        (Some w, Some h, Some n, Some g, Some (Positions ms)) \<Rightarrow>
          int (length g) = h \<and> (\<forall>row \<in> set g. int (length row) = w) \<and> int (length ms) \<le> n
      | _ \<Rightarrow> False)"

subsection \<open>Concrete boards\<close>

text \<open>
  A board of one row and seven columns with its single mine in the last column: what
  \<open>place_mines\<close> builds from \<open>init 7 1 1\<close> on a first click at \<open>(0, 0)\<close> when the
  sampler picks the last candidate.
\<close>

definition mined_board :: board where
  "mined_board =
     \<lparr>width = 7, height = 1, num_mines = 1, grid = [[0, 0, 0, 0, 0, 1, - 1]],
      mine_positions = {(6, 0)}, first_move = True, revealed = {}, flagged = {},
      game_over = False, won = False, time_started = None, game_time = 0, mines_remaining = 1\<rparr>"

text \<open>
  A board of five rows and five columns with three mines: what \<open>place_mines\<close> builds
  from \<open>init 5 5 3\<close> on a first click at \<open>(1, 1)\<close> when the sampler picks the first
  candidates. Row \<open>y\<close> of the grid is the list \<open>grid ! y\<close>.
\<close>

definition clicked_board :: board where
  "clicked_board =
     \<lparr>width = 5, height = 5, num_mines = 3,
      grid = [[0, 0, 0, 0, 0], [0, 0, 0, 0, 0], [2, 2, 1, 0, 0], [- 1, - 1, 1, 0, 0],
              [- 1, 3, 1, 0, 0]],
      mine_positions = {(0, 3), (0, 4), (1, 3)}, first_move = True, revealed = {}, flagged = {},
      game_over = False, won = False, time_started = None, game_time = 0, mines_remaining = 3\<rparr>"

text \<open>
  A board of three rows and three columns with mines in two opposite corners: what
  \<open>place_mines\<close> builds from \<open>init 3 3 2\<close> on a first click at \<open>(0, 0)\<close> when the
  sampler picks the candidates at even positions. The cell \<open>(0, 0)\<close> holds 0, and
  \<open>(1, 1)\<close> touches it by a corner only.
\<close>

definition corner_board :: board where
  "corner_board =
     \<lparr>width = 3, height = 3, num_mines = 2, grid = [[0, 1, - 1], [1, 2, 1], [- 1, 1, 0]],
      mine_positions = {(0, 2), (2, 0)}, first_move = True, revealed = {}, flagged = {},
      game_over = False, won = False, time_started = None, game_time = 0, mines_remaining = 2\<rparr>"

text \<open>The board \<open>mined_board\<close> after \<open>toggle_flag(2, 0)\<close>.\<close>

definition flood_board :: board where
  "flood_board = mined_board\<lparr>flagged := {(2, 0)}, mines_remaining := 0\<rparr>"

text \<open>The board \<open>mined_board\<close> after \<open>toggle_flag(2, 0)\<close> and \<open>reveal_square(0, 0)\<close>.\<close>

definition played_board :: board where
  "played_board = snd (run mined_board [ToggleFlag 2 0, Reveal 0 0])"

text \<open>One order in which \<open>list(a_set)\<close> may list the three sets of that board.\<close>

definition listing :: "cell set \<Rightarrow> cell list" where
  "listing S = (if S = {(6, 0)} then [(6, 0)] else if S = {(2, 0)} then [(2, 0)]
                else if S = {(0, 0), (1, 0)} then [(1, 0), (0, 0)] else [])"

text \<open>
  A dictionary with all twelve keys whose grid is one row of one entry although
  \<open>width\<close> and \<open>height\<close> are 3, and which lists three mines although \<open>num_mines\<close>
  is 1.
\<close>

definition corrupt_snapshot :: save_state where
  "corrupt_snapshot =
     \<lparr>key_width = Some 3, key_height = Some 3, key_num_mines = Some 1,
      key_grid = Some [[0]],
      key_mine_positions = Some (Positions [Coord 0 0, Coord 1 1, Coord 5 5]),
      key_first_move = Some False, key_revealed = Some (Positions []),
      key_flagged = Some (Positions []),
      key_game_over = Some False, key_won = Some False, key_game_time = Some 0,
      key_mines_remaining = Some 7\<rparr>"

section \<open>Flagging: toggle, double toggle, no clamp\<close>

lemma toggle_flag_place:
  "(x, y) \<notin> revealed b \<Longrightarrow> (x, y) \<notin> flagged b \<Longrightarrow>
   toggle_flag b x y
     = (True, b\<lparr>flagged := insert (x, y) (flagged b), mines_remaining := mines_remaining b - 1\<rparr>)"
  by (simp add: toggle_flag_def)

lemma toggle_flag_twice:
  "(x, y) \<notin> revealed b \<Longrightarrow> (x, y) \<notin> flagged b \<Longrightarrow>
   toggle_flag (snd (toggle_flag b x y)) x y = (False, b)"
  by (simp add: toggle_flag_def)

lemma toggle_flag_revealed: "(x, y) \<in> revealed b \<Longrightarrow> toggle_flag b x y = (False, b)"
  by (simp add: toggle_flag_def)

text \<open>
  C10. On an unrevealed, unflagged cell \<open>toggle_flag\<close> returns \<open>True\<close> and lowers
  \<open>mines_remaining\<close> by exactly one; toggling the same cell again returns \<open>False\<close> and
  gives back the original board, so \<open>flagged\<close> and \<open>mines_remaining\<close> are restored; on
  a revealed cell it returns \<open>False\<close> and changes nothing. The counter is not clamped:
  a flag on a fresh board without mines makes it negative, and removing a flag that a
  loaded board carries at full count makes it exceed \<open>num_mines\<close>.
\<close>

theorem toggle_flag_laws:
  "((x, y) \<notin> revealed b \<and> (x, y) \<notin> flagged b \<longrightarrow>
      fst (toggle_flag b x y) = True \<and>
      mines_remaining (snd (toggle_flag b x y)) = mines_remaining b - 1 \<and>
      flagged (snd (toggle_flag b x y)) = insert (x, y) (flagged b) \<and>
      fst (toggle_flag (snd (toggle_flag b x y)) x y) = False \<and>
      snd (toggle_flag (snd (toggle_flag b x y)) x y) = b) \<and>
   ((x, y) \<in> revealed b \<longrightarrow> toggle_flag b x y = (False, b)) \<and>
   mines_remaining (snd (toggle_flag (init 3 3 0) 1 1)) < 0 \<and>
   mines_remaining (snd (toggle_flag ((init 3 3 1)\<lparr>flagged := {(1, 1)}\<rparr>) 1 1))
     > num_mines (snd (toggle_flag ((init 3 3 1)\<lparr>flagged := {(1, 1)}\<rparr>) 1 1))"
proof -
  have neg: "mines_remaining (snd (toggle_flag (init 3 3 0) 1 1)) < 0"
    by (simp add: toggle_flag_def init_def initialize_grid_def)
  have exc: "mines_remaining (snd (toggle_flag ((init 3 3 1)\<lparr>flagged := {(1, 1)}\<rparr>) 1 1))
     > num_mines (snd (toggle_flag ((init 3 3 1)\<lparr>flagged := {(1, 1)}\<rparr>) 1 1))"
    by (simp add: toggle_flag_def init_def initialize_grid_def)
  have fresh: "fst (toggle_flag b x y) = True \<and>
      mines_remaining (snd (toggle_flag b x y)) = mines_remaining b - 1 \<and>
      flagged (snd (toggle_flag b x y)) = insert (x, y) (flagged b) \<and>
      fst (toggle_flag (snd (toggle_flag b x y)) x y) = False \<and>
      snd (toggle_flag (snd (toggle_flag b x y)) x y) = b"
    if "(x, y) \<notin> revealed b \<and> (x, y) \<notin> flagged b"
    using that toggle_flag_twice [of x y b] by (simp add: toggle_flag_place)
  have shown: "toggle_flag b x y = (False, b)" if "(x, y) \<in> revealed b"
    using that by (rule toggle_flag_revealed)
  from fresh shown neg exc show ?thesis by blast
qed

theorem toggle_flag_laws_witness:
  "fst (toggle_flag (init 9 9 10) 2 3) = True \<and>
   mines_remaining (snd (toggle_flag (init 9 9 10) 2 3)) = 9 \<and>
   toggle_flag (snd (toggle_flag (init 9 9 10) 2 3)) 2 3 = (False, init 9 9 10) \<and>
   toggle_flag ((init 9 9 10)\<lparr>revealed := {(2, 3)}\<rparr>) 2 3
     = (False, (init 9 9 10)\<lparr>revealed := {(2, 3)}\<rparr>)"
proof -
  have fresh: "revealed (init 9 9 10) = {}" "flagged (init 9 9 10) = {}"
    "mines_remaining (init 9 9 10) = 10"
    by (simp_all add: init_def initialize_grid_def)
  have a: "fst (toggle_flag (init 9 9 10) 2 3) = True \<and>
      mines_remaining (snd (toggle_flag (init 9 9 10) 2 3)) = mines_remaining (init 9 9 10) - 1 \<and>
      flagged (snd (toggle_flag (init 9 9 10) 2 3)) = insert (2, 3) (flagged (init 9 9 10)) \<and>
      fst (toggle_flag (snd (toggle_flag (init 9 9 10) 2 3)) 2 3) = False \<and>
      snd (toggle_flag (snd (toggle_flag (init 9 9 10) 2 3)) 2 3) = init 9 9 10"
    using toggle_flag_laws [of 2 3 "init 9 9 10"] fresh by simp
  have b: "toggle_flag ((init 9 9 10)\<lparr>revealed := {(2, 3)}\<rparr>) 2 3
     = (False, (init 9 9 10)\<lparr>revealed := {(2, 3)}\<rparr>)"
    using toggle_flag_laws [of 2 3 "(init 9 9 10)\<lparr>revealed := {(2, 3)}\<rparr>"] by simp
  from a b fresh show ?thesis by (simp add: prod_eq_iff)
qed

section \<open>Reveal on a revealed or flagged cell\<close>

text \<open>
  C9. When \<open>(x, y)\<close> is already revealed or is flagged, \<open>reveal_square\<close> returns the
  empty set and the board is the one it was given: no attribute changes.
\<close>

theorem reveal_square_noop:
  "(x, y) \<in> revealed b \<or> (x, y) \<in> flagged b \<Longrightarrow> reveal_square b x y = (Inr {}, b)"
  by (auto simp: reveal_square_def reveal_with_def)

theorem reveal_square_noop_witness:
  "reveal_square ((init 3 3 1)\<lparr>flagged := {(1, 1)}\<rparr>) 1 1 = (Inr {}, (init 3 3 1)\<lparr>flagged := {(1, 1)}\<rparr>) \<and>
   reveal_square ((init 3 3 1)\<lparr>revealed := {(0, 2)}\<rparr>) 0 2 = (Inr {}, (init 3 3 1)\<lparr>revealed := {(0, 2)}\<rparr>)"
  using reveal_square_noop [of 1 1 "(init 3 3 1)\<lparr>flagged := {(1, 1)}\<rparr>"]
    reveal_square_noop [of 0 2 "(init 3 3 1)\<lparr>revealed := {(0, 2)}\<rparr>"]
  by simp

section \<open>Revealed and flagged cells stay apart\<close>

text \<open>
  Every call of \<open>reveal_square\<close>, also one that raises, changes only \<open>revealed\<close>,
  only by adding cells, and adds no flagged cell.
\<close>

lemma reveal_adjacent_frame:
  "reveal_adjacent b nr st adjs = (r, b1) \<Longrightarrow>
   b1 = b\<lparr>revealed := revealed b1\<rparr> \<and> revealed b \<subseteq> revealed b1 \<and>
   (revealed b1 - revealed b) \<inter> flagged b = {}"
proof (induction b nr st adjs rule: reveal_adjacent.induct)
  case (1 b nr st)
  then show ?case by auto
next
  case (2 b nr st ax ay rest)
  show ?case
  proof (cases "(ax, ay) \<notin> revealed b \<and> (ax, ay) \<notin> flagged b")
    case False
    with 2 show ?thesis by auto
  next
    case True
    let ?b' = "b\<lparr>revealed := insert (ax, ay) (revealed b)\<rparr>"
    show ?thesis
    proof (cases "get_value ?b' ax ay")
      case (Inl e)
      with True "2.prems" show ?thesis by (auto simp: Let_def)
    next
      case (Inr v)
      with True "2.prems"
      have rec: "reveal_adjacent ?b' (insert (ax, ay) nr) (if v = 0 then st @ [(ax, ay)] else st) rest = (r, b1)"
        by (simp add: Let_def)
      from "2.IH"(1)[OF True refl refl Inr rec] True
      show ?thesis by auto
    qed
  qed
qed

lemma flood_frame:
  "flood k b nr st = (r, b1) \<Longrightarrow>
   b1 = b\<lparr>revealed := revealed b1\<rparr> \<and> revealed b \<subseteq> revealed b1 \<and>
   (revealed b1 - revealed b) \<inter> flagged b = {}"
proof (induction k b nr st rule: flood.induct)
  case (1 k b nr st)
  show ?case
  proof (cases "st = []")
    case True
    with "1.prems" show ?thesis by (simp add: flood.simps)
  next
    case False
    obtain cx cy where pc: "pop_cell k st = (cx, cy)" by (cases "pop_cell k st")
    obtain r2 b2 where ra: "reveal_adjacent b nr (pop_rest k st) (get_adjacent_squares b cx cy) = (r2, b2)"
      by (cases "reveal_adjacent b nr (pop_rest k st) (get_adjacent_squares b cx cy)")
    note fr = reveal_adjacent_frame[OF ra]
    show ?thesis
    proof (cases r2)
      case (Inl e)
      with "1.prems" False pc ra have "b1 = b2" by (simp add: flood.simps)
      with fr show ?thesis by simp
    next
      case (Inr p)
      obtain nr1 st1 where p: "p = (nr1, st1)" by (cases p)
      from "1.prems" False pc ra Inr p have fl: "flood k b2 nr1 st1 = (r, b1)"
        by (simp add: flood.simps)
      have ih: "b1 = b2\<lparr>revealed := revealed b1\<rparr> \<and> revealed b2 \<subseteq> revealed b1 \<and>
         (revealed b1 - revealed b2) \<inter> flagged b2 = {}"
        using "1.IH"[OF False pc[symmetric] ra[symmetric] Inr p[symmetric] fl] .
      from fr have fl2: "flagged b2 = flagged b"
        by (metis board.select_convs(8) board.surjective board.update_convs(7))
      from fr ih have "b1 = b\<lparr>revealed := revealed b1\<rparr>"
        by (metis board.update_convs(7) board.surjective)
      with fr ih fl2 show ?thesis by auto
    qed
  qed
qed

lemma reveal_with_frame:
  "reveal_with k b x y = (r, b1) \<Longrightarrow>
   b1 = b\<lparr>revealed := revealed b1\<rparr> \<and> revealed b \<subseteq> revealed b1 \<and>
   (revealed b1 - revealed b) \<inter> flagged b = {}"
proof (cases "(x, y) \<in> revealed b \<or> (x, y) \<in> flagged b")
  case True
  assume "reveal_with k b x y = (r, b1)"
  with True show ?thesis by (auto simp: reveal_with_def)
next
  case False
  assume rw: "reveal_with k b x y = (r, b1)"
  let ?b' = "b\<lparr>revealed := insert (x, y) (revealed b)\<rparr>"
  show ?thesis
  proof (cases "get_value ?b' x y")
    case (Inl e)
    with rw False show ?thesis by (auto simp: reveal_with_def Let_def)
  next
    case (Inr v)
    show ?thesis
    proof (cases "v = 0")
      case False
      with rw Inr \<open>\<not> ((x, y) \<in> revealed b \<or> (x, y) \<in> flagged b)\<close>
      show ?thesis by (auto simp: reveal_with_def Let_def)
    next
      case True
      with rw Inr \<open>\<not> ((x, y) \<in> revealed b \<or> (x, y) \<in> flagged b)\<close>
      have "flood k ?b' {(x, y)} [(x, y)] = (r, b1)" by (simp add: reveal_with_def Let_def)
      from flood_frame[OF this] \<open>\<not> ((x, y) \<in> revealed b \<or> (x, y) \<in> flagged b)\<close>
      show ?thesis by auto
    qed
  qed
qed

lemma reveal_with_flags_apart:
  assumes "flags_apart b" shows "flags_apart (snd (reveal_with k b x y))"
proof -
  obtain r b1 where rw: "reveal_with k b x y = (r, b1)" by (cases "reveal_with k b x y")
  from reveal_with_frame[OF rw] have fl: "flagged b1 = flagged b"
    and rest: "(revealed b1 - revealed b) \<inter> flagged b = {}"
    by (metis board.select_convs(8) board.surjective board.update_convs(7), simp)
  with assms rw show ?thesis by (auto simp: flags_apart_def)
qed

lemma toggle_flag_flags_apart:
  "flags_apart b \<Longrightarrow> flags_apart (snd (toggle_flag b x y))"
  by (auto simp: flags_apart_def toggle_flag_def)

lemma snd_apply_op:
  "snd (apply_op b (Reveal x y)) = snd (reveal_square b x y)"
  "snd (apply_op b (ToggleFlag x y)) = snd (toggle_flag b x y)"
  by (simp_all split: prod.splits)

lemma snd_run_Cons: "snd (run b (p # ps)) = snd (run (snd (apply_op b p)) ps)"
  by (simp split: prod.splits)

lemma apply_op_flags_apart: "flags_apart b \<Longrightarrow> flags_apart (snd (apply_op b p))"
  by (cases p)
     (simp_all only: snd_apply_op reveal_square_def reveal_with_flags_apart toggle_flag_flags_apart)

lemma run_flags_apart: "flags_apart b \<Longrightarrow> flags_apart (snd (run b ps))"
proof (induction ps arbitrary: b)
  case Nil
  then show ?case by simp
next
  case (Cons p ps)
  from Cons.IH[OF apply_op_flags_apart[OF Cons.prems, of p]]
  show ?case by (simp only: snd_run_Cons)
qed

lemma place_mines_keeps_sets:
  "place_mines sample b x y = Inr b1 \<Longrightarrow> revealed b1 = revealed b \<and> flagged b1 = flagged b"
  by (auto simp: place_mines_def Let_def split: if_splits sum.splits)

lemma init_flags_apart: "flags_apart (init w h n)"
  by (simp add: flags_apart_def init_def initialize_grid_def)

text \<open>
  C8. After every sequence of \<open>reveal_square\<close> and \<open>toggle_flag\<close> calls on a freshly
  constructed board, \<open>revealed\<close> and \<open>flagged\<close> are disjoint. The first reveal of a
  game comes after \<open>place_mines\<close>: when the mines are placed at any point of such a
  sequence, the two sets are still disjoint after every further sequence of calls,
  flood expansions and calls that raise included.
\<close>

theorem revealed_flagged_disjoint:
  "revealed (snd (run (init w h n) ops)) \<inter> flagged (snd (run (init w h n) ops)) = {} \<and>
   (place_mines sample (snd (run (init w h n) ops)) x y = Inr b \<longrightarrow>
      revealed (snd (run b ops')) \<inter> flagged (snd (run b ops')) = {})"
proof -
  have a: "flags_apart (snd (run (init w h n) ops))"
    by (rule run_flags_apart[OF init_flags_apart])
  have "flags_apart (snd (run b ops'))" if "place_mines sample (snd (run (init w h n) ops)) x y = Inr b"
  proof -
    from place_mines_keeps_sets[OF that] a have "flags_apart b" by (simp add: flags_apart_def)
    then show ?thesis by (rule run_flags_apart)
  qed
  with a show ?thesis by (simp add: flags_apart_def)
qed

theorem revealed_flagged_disjoint_witness:
  "place_mines pick_last (snd (run (init 7 1 1) [ToggleFlag 3 0])) 0 0
     = Inr (mined_board\<lparr>flagged := {(3, 0)}, mines_remaining := 0\<rparr>) \<and>
   revealed (snd (run (mined_board\<lparr>flagged := {(3, 0)}, mines_remaining := 0\<rparr>)
                    [Reveal 0 0, ToggleFlag 1 0, ToggleFlag 3 0, Reveal 3 0, Reveal 9 9])) \<inter>
   flagged (snd (run (mined_board\<lparr>flagged := {(3, 0)}, mines_remaining := 0\<rparr>)
                    [Reveal 0 0, ToggleFlag 1 0, ToggleFlag 3 0, Reveal 3 0, Reveal 9 9])) = {}"
proof -
  have h: "place_mines pick_last (snd (run (init 7 1 1) [ToggleFlag 3 0])) 0 0
     = Inr (mined_board\<lparr>flagged := {(3, 0)}, mines_remaining := 0\<rparr>)"
    by code_simp
  from revealed_flagged_disjoint [of 7 1 1 "[ToggleFlag 3 0]" pick_last 0 0
      "mined_board\<lparr>flagged := {(3, 0)}, mines_remaining := 0\<rparr>"
      "[Reveal 0 0, ToggleFlag 1 0, ToggleFlag 3 0, Reveal 3 0, Reveal 9 9]"] h
  show ?thesis by simp
qed

section \<open>Neighbours and adjacent mine counts\<close>

lemma concat_if_singleton:
  "concat (map (\<lambda>d. if B d then [p d] else []) ds) = map p (filter B ds)"
  by (induction ds) simp_all

lemma get_adjacent_squares_product:
  "get_adjacent_squares b x y =
     map (\<lambda>(dx, dy). (x + dx, y + dy))
       (filter (\<lambda>(dx, dy). 0 \<le> x + dx \<and> x + dx < width b \<and> 0 \<le> y + dy \<and> y + dy < height b \<and>
                   (dx, dy) \<noteq> (0, 0))
          (List.product [-1, 0, 1] [-1, 0, 1]))"
  unfolding get_adjacent_squares_def concat_if_singleton product_concat_map
  by (simp only: filter_concat map_concat filter_map map_map comp_def case_prod_conv)

lemma distinct_get_adjacent_squares: "distinct (get_adjacent_squares b x y)"
  unfolding get_adjacent_squares_product
  by (rule distinct_map[THEN iffD2]) (auto simp: distinct_product inj_on_def)

lemma set_get_adjacent_squares: "set (get_adjacent_squares b x y) = neighbours b x y"
proof -
  define B where "B = (\<lambda>(dx, dy). 0 \<le> x + dx \<and> x + dx < width b \<and> 0 \<le> y + dy \<and> y + dy < height b \<and>
                   (dx, dy) \<noteq> (0::int, 0::int))"
  have s: "set (get_adjacent_squares b x y)
           = (\<lambda>(dx, dy). (x + dx, y + dy)) ` {d \<in> {-1, 0, 1} \<times> {-1, 0, 1}. B d}"
    unfolding get_adjacent_squares_product B_def[symmetric]
    by (simp only: set_map set_filter set_product list.set)
  have off: "\<bar>d\<bar> \<le> 1 \<longleftrightarrow> d \<in> {-1, 0, 1}" for d :: int by auto
  show ?thesis
  proof (rule set_eqI)
    fix p :: cell
    obtain a c where p: "p = (a, c)" by (cases p)
    show "p \<in> set (get_adjacent_squares b x y) \<longleftrightarrow> p \<in> neighbours b x y"
    proof
      assume "p \<in> set (get_adjacent_squares b x y)"
      with s p obtain dx dy where d: "dx \<in> {-1, 0, 1}" "dy \<in> {-1, 0, 1}" "B (dx, dy)"
        and ac: "a = x + dx" "c = y + dy"
        by auto
      from d(1,2) have "\<bar>dx\<bar> \<le> 1" "\<bar>dy\<bar> \<le> 1" unfolding off by simp_all
      with d(3) ac p show "p \<in> neighbours b x y"
        by (simp add: neighbours_def B_def)
    next
      assume "p \<in> neighbours b x y"
      with p have n: "0 \<le> a" "a < width b" "0 \<le> c" "c < height b"
        "\<bar>a - x\<bar> \<le> 1" "\<bar>c - y\<bar> \<le> 1" "(a, c) \<noteq> (x, y)"
        by (simp_all add: neighbours_def)
      from n(5,6) have "a - x \<in> {-1, 0, 1}" "c - y \<in> {-1, 0, 1}" unfolding off by simp_all
      moreover from n have "B (a - x, c - y)" by (simp add: B_def)
      ultimately have "(a - x, c - y) \<in> {d \<in> {-1, 0, 1} \<times> {-1, 0, 1}. B d}" by blast
      then have "(\<lambda>(dx, dy). (x + dx, y + dy)) (a - x, c - y)
                   \<in> (\<lambda>(dx, dy). (x + dx, y + dy)) ` {d \<in> {-1, 0, 1} \<times> {-1, 0, 1}. B d}"
        by (rule imageI)
      with s p show "p \<in> set (get_adjacent_squares b x y)" by simp
    qed
  qed
qed

lemma fold_count: "fold (\<lambda>d c. if Q d then c + 1 else c) ds c = c + int (length (filter Q ds))"
  by (induction ds arbitrary: c) simp_all

lemma length_filter_if_singleton:
  "length (filter M (concat (map (\<lambda>d. if B d then [p d] else []) ds)))
     = length (filter (\<lambda>d. B d \<and> M (p d)) ds)"
  by (induction ds) simp_all

lemma count_loops:
  assumes Q: "\<And>dx dy. Q dx dy \<longleftrightarrow> B dx dy \<and> M (p dx dy)"
  shows "fold (\<lambda>dx c. fold (\<lambda>dy c. if Q dx dy then c + 1 else c) ys c) xs (c0 :: int)
     = c0 + int (length (filter M
         (concat (map (\<lambda>dx. concat (map (\<lambda>dy. if B dx dy then [p dx dy] else []) ys)) xs))))"
proof (induction xs arbitrary: c0)
  case Nil
  show ?case by simp
next
  case (Cons dx xs)
  have inner: "fold (\<lambda>dy c. if Q dx dy then c + 1 else c) ys c0
       = c0 + int (length (filter M (concat (map (\<lambda>dy. if B dx dy then [p dx dy] else []) ys))))"
    unfolding fold_count length_filter_if_singleton Q ..
  show ?case
    by (simp only: fold_Cons comp_apply inner Cons.IH list.map concat.simps filter_append
          length_append of_nat_add add.assoc)
qed

lemma count_adjacent_mines_filter:
  "count_adjacent_mines b x y
     = int (length (filter (\<lambda>c. c \<in> mine_positions b) (get_adjacent_squares b x y)))"
proof -
  have "count_adjacent_mines b x y = 0 + int (length (filter (\<lambda>c. c \<in> mine_positions b)
       (concat (map (\<lambda>dx. concat (map (\<lambda>dy.
           if 0 \<le> x + dx \<and> x + dx < width b \<and> 0 \<le> y + dy \<and> y + dy < height b \<and> (dx, dy) \<noteq> (0, 0)
           then [(x + dx, y + dy)] else []) [-1, 0, 1])) [-1, 0, 1]))))"
    unfolding count_adjacent_mines_def
    by (rule count_loops) (simp add: conj_assoc)
  then show ?thesis by (simp only: get_adjacent_squares_def add_0)
qed

lemma count_adjacent_mines_card:
  "count_adjacent_mines b x y = int (card (neighbours b x y \<inter> mine_positions b))"
proof -
  have "card (neighbours b x y \<inter> mine_positions b)
      = card (set (filter (\<lambda>c. c \<in> mine_positions b) (get_adjacent_squares b x y)))"
    by (simp add: set_get_adjacent_squares Int_def)
  also have "\<dots> = length (filter (\<lambda>c. c \<in> mine_positions b) (get_adjacent_squares b x y))"
    by (rule distinct_card) (simp add: distinct_get_adjacent_squares)
  finally show ?thesis by (simp add: count_adjacent_mines_filter)
qed

lemma length_filter_mono:
  "(\<And>x. x \<in> set xs \<Longrightarrow> P x \<Longrightarrow> Q x) \<Longrightarrow> length (filter P xs) \<le> length (filter Q xs)"
proof (induction xs)
  case Nil
  show ?case by simp
next
  case (Cons a xs)
  then have "length (filter P xs) \<le> length (filter Q xs)" by simp
  with Cons.prems[of a] show ?case by auto
qed

lemma card_neighbours_bound:
  assumes "\<And>dx dy. 0 \<le> x + dx \<and> x + dx < width b \<and> 0 \<le> y + dy \<and> y + dy < height b \<and>
                     (dx, dy) \<noteq> (0, 0) \<Longrightarrow> Q (dx, dy)"
  shows "card (neighbours b x y) \<le> length (filter Q (List.product [-1, 0, 1] [-1, 0, 1]))"
proof -
  have "card (neighbours b x y) = length (get_adjacent_squares b x y)"
    unfolding set_get_adjacent_squares[symmetric]
    by (rule distinct_card[OF distinct_get_adjacent_squares])
  also have "\<dots> \<le> length (filter Q (List.product [-1, 0, 1] [-1, 0, 1]))"
    unfolding get_adjacent_squares_product length_map
    by (rule length_filter_mono) (use assms in auto)
  finally show ?thesis .
qed

lemma card_neighbours_le_8: "card (neighbours b x y) \<le> 8"
proof -
  have "card (neighbours b x y)
      \<le> length (filter (\<lambda>d. d \<noteq> (0, 0)) (List.product [-1, 0, 1 :: int] [-1, 0, 1 :: int]))"
    by (rule card_neighbours_bound[where Q = "\<lambda>d. d \<noteq> (0, 0)"]) simp
  then show ?thesis by simp
qed

lemma card_neighbours_edge:
  assumes "x = 0 \<or> y = 0 \<or> x = width b - 1 \<or> y = height b - 1"
  shows "card (neighbours b x y) \<le> 5"
proof -
  consider "x = 0" | "y = 0" | "x = width b - 1" | "y = height b - 1" using assms by blast
  then show ?thesis
  proof cases
    case 1
    have "card (neighbours b x y)
      \<le> length (filter (\<lambda>(dx, dy). (dx, dy) \<noteq> (0, 0) \<and> dx \<noteq> - 1) (List.product [-1, 0, 1 :: int] [-1, 0, 1 :: int]))"
      by (rule card_neighbours_bound[where Q = "\<lambda>(dx, dy). (dx, dy) \<noteq> (0, 0) \<and> dx \<noteq> - 1"])
         (use 1 in auto)
    then show ?thesis by simp
  next
    case 2
    have "card (neighbours b x y)
      \<le> length (filter (\<lambda>(dx, dy). (dx, dy) \<noteq> (0, 0) \<and> dy \<noteq> - 1) (List.product [-1, 0, 1 :: int] [-1, 0, 1 :: int]))"
      by (rule card_neighbours_bound[where Q = "\<lambda>(dx, dy). (dx, dy) \<noteq> (0, 0) \<and> dy \<noteq> - 1"])
         (use 2 in auto)
    then show ?thesis by simp
  next
    case 3
    have "card (neighbours b x y)
      \<le> length (filter (\<lambda>(dx, dy). (dx, dy) \<noteq> (0, 0) \<and> dx \<noteq> 1) (List.product [-1, 0, 1 :: int] [-1, 0, 1 :: int]))"
      by (rule card_neighbours_bound[where Q = "\<lambda>(dx, dy). (dx, dy) \<noteq> (0, 0) \<and> dx \<noteq> 1"])
         (use 3 in auto)
    then show ?thesis by simp
  next
    case 4
    have "card (neighbours b x y)
      \<le> length (filter (\<lambda>(dx, dy). (dx, dy) \<noteq> (0, 0) \<and> dy \<noteq> 1) (List.product [-1, 0, 1 :: int] [-1, 0, 1 :: int]))"
      by (rule card_neighbours_bound[where Q = "\<lambda>(dx, dy). (dx, dy) \<noteq> (0, 0) \<and> dy \<noteq> 1"])
         (use 4 in auto)
    then show ?thesis by simp
  qed
qed

lemma card_neighbours_corner:
  assumes "x = 0 \<or> x = width b - 1" "y = 0 \<or> y = height b - 1"
  shows "card (neighbours b x y) \<le> 3"
proof -
  define ex :: int where "ex = (if x = 0 then - 1 else 1)"
  define ey :: int where "ey = (if y = 0 then - 1 else 1)"
  have "card (neighbours b x y)
      \<le> length (filter (\<lambda>(dx, dy). (dx, dy) \<noteq> (0, 0) \<and> dx \<noteq> ex \<and> dy \<noteq> ey)
            (List.product [-1, 0, 1 :: int] [-1, 0, 1 :: int]))"
    by (rule card_neighbours_bound[where Q = "\<lambda>(dx, dy). (dx, dy) \<noteq> (0, 0) \<and> dx \<noteq> ex \<and> dy \<noteq> ey"])
       (use assms in \<open>auto simp: ex_def ey_def\<close>)
  also have "\<dots> \<le> 3" by (simp add: ex_def ey_def)
  finally show ?thesis .
qed

section \<open>Flood expansion\<close>

text \<open>On a well-shaped grid the inner loop does not raise; what it adds.\<close>

lemma get_value_in_grid:
  assumes "well_shaped b" "(x, y) \<in> grid_cells b"
  shows "get_value b x y = Inr (grid b ! nat y ! nat x)"
proof -
  from assms have y: "0 \<le> y" "y < int (length (grid b))" and x: "0 \<le> x" "x < width b"
    by (auto simp: well_shaped_def grid_cells_def)
  then have "grid b ! nat y \<in> set (grid b)" by simp
  with assms(1) have "length (grid b ! nat y) = nat (width b)" by (simp add: well_shaped_def)
  with x y show ?thesis by (simp add: get_value_def py_get_def py_index_def)
qed

lemma get_value_revealed_update [simp]:
  "get_value (b\<lparr>revealed := R\<rparr>) x y = get_value b x y"
  by (simp add: get_value_def)

lemma get_adjacent_squares_revealed_update [simp]:
  "get_adjacent_squares (b\<lparr>revealed := R\<rparr>) x y = get_adjacent_squares b x y"
  by (simp add: get_adjacent_squares_def)

lemma zero_cell_revealed_update [simp]: "zero_cell (b\<lparr>revealed := R\<rparr>) c = zero_cell b c"
  by (simp add: zero_cell_def)

lemma well_shaped_revealed_update [simp]: "well_shaped (b\<lparr>revealed := R\<rparr>) = well_shaped b"
  by (simp add: well_shaped_def)

lemma grid_cells_revealed_update [simp]: "grid_cells (b\<lparr>revealed := R\<rparr>) = grid_cells b"
  by (simp add: grid_cells_def)

lemma reveal_adjacent_result:
  assumes "well_shaped b" "set adjs \<subseteq> grid_cells b"
  shows "\<exists>st'. reveal_adjacent b nr st adjs
            = (Inr (nr \<union> {a \<in> set adjs. a \<notin> revealed b \<and> a \<notin> flagged b}, st'),
               b\<lparr>revealed := revealed b \<union> {a \<in> set adjs. a \<notin> revealed b \<and> a \<notin> flagged b}\<rparr>) \<and>
          set st' = set st \<union> {a \<in> set adjs. a \<notin> revealed b \<and> a \<notin> flagged b \<and> zero_cell b a}"
  using assms
proof (induction adjs arbitrary: b nr st)
  case Nil
  then show ?case by simp
next
  case (Cons a rest)
  obtain ax ay where a: "a = (ax, ay)" by (cases a)
  show ?case
  proof (cases "(ax, ay) \<notin> revealed b \<and> (ax, ay) \<notin> flagged b")
    case False
    from Cons.prems have "set rest \<subseteq> grid_cells b" by simp
    from Cons.IH[OF Cons.prems(1) this, of nr st] obtain st' where
      r: "reveal_adjacent b nr st rest
            = (Inr (nr \<union> {a \<in> set rest. a \<notin> revealed b \<and> a \<notin> flagged b}, st'),
               b\<lparr>revealed := revealed b \<union> {a \<in> set rest. a \<notin> revealed b \<and> a \<notin> flagged b}\<rparr>)"
      and s: "set st' = set st \<union> {a \<in> set rest. a \<notin> revealed b \<and> a \<notin> flagged b \<and> zero_cell b a}"
      by blast
    have e1: "{c \<in> set (a # rest). c \<notin> revealed b \<and> c \<notin> flagged b}
            = {c \<in> set rest. c \<notin> revealed b \<and> c \<notin> flagged b}"
      using False a by auto
    have e2: "{c \<in> set (a # rest). c \<notin> revealed b \<and> c \<notin> flagged b \<and> zero_cell b c}
            = {c \<in> set rest. c \<notin> revealed b \<and> c \<notin> flagged b \<and> zero_cell b c}"
      using False a by auto
    from False a r have "reveal_adjacent b nr st (a # rest)
            = (Inr (nr \<union> {a \<in> set rest. a \<notin> revealed b \<and> a \<notin> flagged b}, st'),
               b\<lparr>revealed := revealed b \<union> {a \<in> set rest. a \<notin> revealed b \<and> a \<notin> flagged b}\<rparr>)"
      by auto
    with s show ?thesis unfolding e1 e2 by blast
  next
    case True
    define b' where "b' = b\<lparr>revealed := insert (ax, ay) (revealed b)\<rparr>"
    define v where "v = grid b ! nat ay ! nat ax"
    define st1 where "st1 = (if v = 0 then st @ [(ax, ay)] else st)"
    from Cons.prems a have ain: "(ax, ay) \<in> grid_cells b" and sub: "set rest \<subseteq> grid_cells b'"
      by (auto simp: b'_def)
    have gv: "get_value b' ax ay = Inr v"
      using get_value_in_grid[OF Cons.prems(1) ain] by (simp add: b'_def v_def)
    have ws: "well_shaped b'" using Cons.prems(1) by (simp add: b'_def)
    from Cons.IH[OF ws sub, of "insert (ax, ay) nr" st1] obtain st' where
      r: "reveal_adjacent b' (insert (ax, ay) nr) st1 rest
            = (Inr (insert (ax, ay) nr \<union> {a \<in> set rest. a \<notin> revealed b' \<and> a \<notin> flagged b'}, st'),
               b'\<lparr>revealed := revealed b' \<union> {a \<in> set rest. a \<notin> revealed b' \<and> a \<notin> flagged b'}\<rparr>)"
      and s: "set st' = set st1 \<union> {a \<in> set rest. a \<notin> revealed b' \<and> a \<notin> flagged b' \<and> zero_cell b' a}"
      by blast
    have step: "reveal_adjacent b nr st (a # rest) = reveal_adjacent b' (insert (ax, ay) nr) st1 rest"
      using True a gv by (simp add: Let_def b'_def st1_def)
    have zc: "zero_cell b (ax, ay) \<longleftrightarrow> v = 0"
      using gv by (simp add: zero_cell_def b'_def)
    have e1: "insert (ax, ay) nr \<union> {a \<in> set rest. a \<notin> revealed b' \<and> a \<notin> flagged b'}
            = nr \<union> {c \<in> set (a # rest). c \<notin> revealed b \<and> c \<notin> flagged b}"
      using True a by (auto simp: b'_def)
    have e2: "revealed b' \<union> {a \<in> set rest. a \<notin> revealed b' \<and> a \<notin> flagged b'}
            = revealed b \<union> {c \<in> set (a # rest). c \<notin> revealed b \<and> c \<notin> flagged b}"
      using True a by (auto simp: b'_def)
    have e3: "set st1 \<union> {a \<in> set rest. a \<notin> revealed b' \<and> a \<notin> flagged b' \<and> zero_cell b' a}
            = set st \<union> {c \<in> set (a # rest). c \<notin> revealed b \<and> c \<notin> flagged b \<and> zero_cell b c}"
      using True a zc by (auto simp: b'_def st1_def)
    have e4: "b'\<lparr>revealed := X\<rparr> = b\<lparr>revealed := X\<rparr>" for X by (simp add: b'_def)
    from r s show ?thesis unfolding step e1 e2 e3 e4 by blast
  qed
qed

lemma pop_cell_in: "st \<noteq> [] \<Longrightarrow> pop_cell k st \<in> set st"
  by (cases k) simp_all

lemma pop_rest_sub: "set (pop_rest k st) \<subseteq> set st"
  by (cases k; cases st) (auto dest: in_set_butlastD)

lemma pop_split: "st \<noteq> [] \<Longrightarrow> set st \<subseteq> insert (pop_cell k st) (set (pop_rest k st))"
proof (cases k)
  case LIFO
  assume "st \<noteq> []"
  then have "st = butlast st @ [last st]" by simp
  then have "set st = set (butlast st) \<union> {last st}" by (metis set_append list.set(1,2))
  with LIFO show ?thesis by auto
next
  case FIFO
  assume "st \<noteq> []"
  then have "st = hd st # tl st" by simp
  then have "set st = insert (hd st) (set (tl st))" by (metis list.set(2))
  with FIFO show ?thesis by auto
qed

lemma flood_inv_done:
  assumes "flood_inv b0 c0 b nr []"
  shows "nr = region b0 c0"
proof
  from assms show "nr \<subseteq> region b0 c0" by (simp add: flood_inv_def)
  show "region b0 c0 \<subseteq> nr"
  proof
    fix c assume "c \<in> region b0 c0"
    then show "c \<in> nr"
    proof (induction rule: region.induct)
      case start
      from assms show ?case by (simp add: flood_inv_def)
    next
      case (step c c')
      with assms show ?case by (simp add: flood_inv_def set_get_adjacent_squares)
    qed
  qed
qed

lemma flood_inv_step:
  assumes inv: "flood_inv b0 c0 b nr st" and ne: "st \<noteq> []"
    and pc: "pop_cell k st = (cx, cy)"
    and N: "N = {a \<in> set (get_adjacent_squares b cx cy). a \<notin> revealed b \<and> a \<notin> flagged b}"
    and st': "set st' = set (pop_rest k st) \<union>
               {a \<in> set (get_adjacent_squares b cx cy). a \<notin> revealed b \<and> a \<notin> flagged b \<and> zero_cell b a}"
  shows "flood_inv b0 c0 (b\<lparr>revealed := revealed b \<union> N\<rparr>) (nr \<union> N) st'"
proof -
  from inv have b: "b = b0\<lparr>revealed := revealed b0 \<union> nr\<rparr>" by (simp add: flood_inv_def)
  have adj: "get_adjacent_squares b cx cy = get_adjacent_squares b0 cx cy"
    by (subst b) simp
  have rev: "revealed b = revealed b0 \<union> nr" by (subst b) simp
  have fl: "flagged b = flagged b0" by (subst b) simp
  have zc: "zero_cell b a = zero_cell b0 a" for a by (subst b) simp
  have cin: "(cx, cy) \<in> set st" using pop_cell_in[OF ne, of k] pc by simp
  with inv have cnr: "(cx, cy) \<in> nr" and creg: "(cx, cy) \<in> region b0 c0"
    and cz: "zero_cell b0 (cx, cy)"
    by (auto simp: flood_inv_def)
  have Nreg: "N \<subseteq> region b0 c0"
  proof
    fix a assume "a \<in> N"
    with N adj rev fl have "a \<in> set (get_adjacent_squares b0 cx cy)" "a \<notin> revealed b0" "a \<notin> flagged b0"
      by auto
    with region.step[OF creg cz, of a] show "a \<in> region b0 c0"
      by (simp add: set_get_adjacent_squares)
  qed
  have Ndef: "N = {a \<in> set (get_adjacent_squares b0 cx cy). a \<notin> revealed b0 \<and> a \<notin> nr \<and> a \<notin> flagged b0}"
    using N adj rev fl by auto
  have st'def: "set st' = set (pop_rest k st) \<union> {a \<in> N. zero_cell b0 a}"
    using st' N zc by auto
  have 1: "b\<lparr>revealed := revealed b \<union> N\<rparr> = b0\<lparr>revealed := revealed b0 \<union> (nr \<union> N)\<rparr>"
    by (subst b, subst b) (simp add: Un_assoc)
  have 2: "c0 \<in> nr \<union> N" using inv by (simp add: flood_inv_def)
  have 3: "nr \<union> N \<subseteq> region b0 c0" using inv Nreg by (simp add: flood_inv_def)
  have 4: "set st' \<subseteq> nr \<union> N"
    using st'def pop_rest_sub[of k st] inv by (auto simp: flood_inv_def)
  have 5: "\<forall>c \<in> set st'. zero_cell b0 c"
    using st'def pop_rest_sub[of k st] inv by (auto simp: flood_inv_def)
  have 6: "c' \<in> nr \<union> N"
    if c: "c \<in> nr \<union> N" "zero_cell b0 c" "c \<notin> set st'"
      and c': "c' \<in> set (get_adjacent_squares b0 (fst c) (snd c))" "c' \<notin> revealed b0" "c' \<notin> flagged b0"
    for c c'
  proof -
    from c st'def have cN: "c \<notin> N" and crest: "c \<notin> set (pop_rest k st)" by auto
    with c have cnr': "c \<in> nr" by simp
    show ?thesis
    proof (cases "c \<in> set st")
      case True
      with pop_split[OF ne, of k] pc crest have "c = (cx, cy)" by auto
      with c' Ndef show ?thesis by auto
    next
      case False
      with inv cnr' c(2) c' have "c' \<in> nr" by (simp add: flood_inv_def)
      then show ?thesis by simp
    qed
  qed
  from 1 2 3 4 5 6 show ?thesis unfolding flood_inv_def by blast
qed

lemma flood_region:
  assumes "well_shaped b0" "flood_inv b0 c0 b nr st"
  shows "flood k b nr st = (Inr (region b0 c0), b0\<lparr>revealed := revealed b0 \<union> region b0 c0\<rparr>)"
  using assms(2)
proof (induction k b nr st rule: flood.induct)
  case (1 k b nr st)
  show ?case
  proof (cases "st = []")
    case True
    with "1.prems" have "nr = region b0 c0" by (simp add: flood_inv_done)
    moreover from "1.prems" have "b = b0\<lparr>revealed := revealed b0 \<union> nr\<rparr>" by (simp add: flood_inv_def)
    ultimately show ?thesis using True by (simp add: flood.simps)
  next
    case False
    obtain cx cy where pc: "pop_cell k st = (cx, cy)" by (cases "pop_cell k st")
    from "1.prems" have b: "b = b0\<lparr>revealed := revealed b0 \<union> nr\<rparr>" by (simp add: flood_inv_def)
    have ws: "well_shaped b" using assms(1) by (subst b) simp
    define N where "N = {a \<in> set (get_adjacent_squares b cx cy). a \<notin> revealed b \<and> a \<notin> flagged b}"
    from reveal_adjacent_result[OF ws get_adjacent_squares_in_grid[of b cx cy], where nr = nr and st = "pop_rest k st"]
    obtain st' where
      ra: "reveal_adjacent b nr (pop_rest k st) (get_adjacent_squares b cx cy)
             = (Inr (nr \<union> N, st'), b\<lparr>revealed := revealed b \<union> N\<rparr>)"
      and s: "set st' = set (pop_rest k st) \<union>
               {a \<in> set (get_adjacent_squares b cx cy). a \<notin> revealed b \<and> a \<notin> flagged b \<and> zero_cell b a}"
      unfolding N_def by blast
    have inv': "flood_inv b0 c0 (b\<lparr>revealed := revealed b \<union> N\<rparr>) (nr \<union> N) st'"
      by (rule flood_inv_step[OF "1.prems" False pc N_def s])
    have "flood k b nr st = flood k (b\<lparr>revealed := revealed b \<union> N\<rparr>) (nr \<union> N) st'"
      using False pc ra by (subst flood.simps) simp
    also have "\<dots> = (Inr (region b0 c0), b0\<lparr>revealed := revealed b0 \<union> region b0 c0\<rparr>)"
      by (rule "1.IH"[OF False pc[symmetric] ra[symmetric] refl refl inv'])
    finally show ?thesis .
  qed
qed

lemma reveal_with_region:
  assumes ws: "well_shaped b" and fresh: "(x, y) \<notin> revealed b" "(x, y) \<notin> flagged b"
    and z: "get_value b x y = Inr 0"
  shows "reveal_with k b x y
           = (Inr (region b (x, y)), b\<lparr>revealed := revealed b \<union> region b (x, y)\<rparr>)"
proof -
  let ?b1 = "b\<lparr>revealed := insert (x, y) (revealed b)\<rparr>"
  have "flood_inv b (x, y) ?b1 {(x, y)} [(x, y)]"
    using z by (simp add: flood_inv_def region.start zero_cell_def)
  from flood_region[OF ws this, of k] fresh z
  show ?thesis by (simp add: reveal_with_def Let_def)
qed

lemma zero_region_zero:
  assumes "zero_cell b c0" "c \<in> zero_region b c0"
  shows "zero_cell b c"
  using assms(2,1) by (induction rule: zero_region.induct) simp_all

lemma region_fresh:
  assumes "c0 \<notin> revealed b" "c0 \<notin> flagged b" "c \<in> region b c0"
  shows "c \<notin> revealed b \<and> c \<notin> flagged b"
  using assms(3,1,2) by (induction rule: region.induct) simp_all

lemma region_in_closure:
  assumes z: "zero_cell b c0" and c: "c \<in> region b c0"
  shows "c \<in> region_with_border b c0"
  using c
proof (induction rule: region.induct)
  case start
  show ?case by (simp add: region_with_border_def zero_region.origin)
next
  case (step c c')
  have "c \<in> zero_region b c0"
  proof -
    from step.IH consider "c \<in> zero_region b c0"
      | d where "d \<in> zero_region b c0" "c \<in> neighbours b (fst d) (snd d)"
      by (auto simp: region_with_border_def)
    then show ?thesis
    proof cases
      case 1
      then show ?thesis .
    next
      case 2
      with step.hyps(2) show ?thesis by (blast intro: zero_region.grow)
    qed
  qed
  with step.hyps(3) show ?case by (auto simp: region_with_border_def)
qed

lemma closure_in_region:
  assumes z: "zero_cell b c0" and e: "revealed b = {}" "flagged b = {}"
    and c: "c \<in> region_with_border b c0"
  shows "c \<in> region b c0"
proof -
  have zr: "d \<in> region b c0" if "d \<in> zero_region b c0" for d
    using that
  proof (induction rule: zero_region.induct)
    case origin
    show ?case by (rule region.start)
  next
    case (grow c c')
    from zero_region_zero[OF z grow.hyps(1)] have "zero_cell b c" .
    from region.step[OF grow.IH this grow.hyps(2)] e show ?case by simp
  qed
  from c consider "c \<in> zero_region b c0"
    | d where "d \<in> zero_region b c0" "c \<in> neighbours b (fst d) (snd d)"
    by (auto simp: region_with_border_def)
  then show ?thesis
  proof cases
    case 1
    then show ?thesis by (rule zr)
  next
    case 2
    from region.step[OF zr[OF 2(1)] zero_region_zero[OF z 2(1)] 2(2)] e show ?thesis by simp
  qed
qed

lemma place_mines_mined_board:
  "place_mines pick_last (init 7 1 1) 0 0 = Inr mined_board"
  by code_simp

lemma flood_board_built: "snd (toggle_flag mined_board 2 0) = flood_board"
  by (simp add: toggle_flag_def mined_board_def flood_board_def)

lemma flood_board_reveal:
  "reveal_square flood_board 0 0 = (Inr {(0, 0), (1, 0)}, flood_board\<lparr>revealed := {(0, 0), (1, 0)}\<rparr>)"
  by code_simp

lemma flood_board_zero_region: "(3, 0) \<in> zero_region flood_board (0, 0)"
proof -
  have adj: "(1, 0) \<in> neighbours flood_board 0 0"
    "(2, 0) \<in> neighbours flood_board 1 0"
    "(3, 0) \<in> neighbours flood_board 2 0"
    by (simp_all add: neighbours_def flood_board_def mined_board_def)
  have z: "zero_cell flood_board (1, 0)" "zero_cell flood_board (2, 0)" "zero_cell flood_board (3, 0)"
    by code_simp+
  have "(1, 0) \<in> zero_region flood_board (0, 0)"
    using zero_region.grow[OF zero_region.origin, of "(1, 0)" flood_board "(0, 0)"] adj z by simp
  then have "(2, 0) \<in> zero_region flood_board (0, 0)"
    using zero_region.grow[of "(1, 0)" flood_board "(0, 0)" "(2, 0)"] adj z by simp
  then show ?thesis
    using zero_region.grow[of "(2, 0)" flood_board "(0, 0)" "(3, 0)"] adj z by simp
qed

lemma place_mines_corner_board:
  "place_mines pick_alternate (init 3 3 2) 0 0 = Inr corner_board"
  by code_simp

lemma corner_board_reveal:
  "reveal_square corner_board 0 0
     = (Inr {(0, 0), (1, 0), (0, 1), (1, 1)},
        corner_board\<lparr>revealed := {(0, 0), (1, 0), (0, 1), (1, 1)}\<rparr>)"
  by code_simp

text \<open>
  C2, as stated, fails. On the board of one row \<open>0 0 0 0 0 1 mine\<close> with a flag on
  \<open>(2, 0)\<close>, which \<open>place_mines\<close> and one \<open>toggle_flag\<close> build, the connected
  region of zeros containing \<open>(0, 0)\<close> reaches \<open>(3, 0)\<close>, which is not flagged; but
  \<open>reveal_square(0, 0)\<close> reveals \<open>(0, 0)\<close> and \<open>(1, 0)\<close> only, because the
  expansion never enters the flagged cell and so never gets past it.
\<close>

theorem flood_stops_at_flag:
  "place_mines pick_last (init 7 1 1) 0 0 = Inr mined_board \<and>
   snd (toggle_flag mined_board 2 0) = flood_board \<and>
   get_value flood_board 0 0 = Inr 0 \<and> (0, 0) \<notin> revealed flood_board \<and> (0, 0) \<notin> flagged flood_board \<and>
   (3, 0) \<in> zero_region flood_board (0, 0) \<and> (3, 0) \<notin> flagged flood_board \<and>
   (3, 0) \<notin> revealed (snd (reveal_square flood_board 0 0)) \<and>
   fst (reveal_square flood_board 0 0)
     \<noteq> Inr (region_with_border flood_board (0, 0) - flagged flood_board - revealed flood_board)"
proof -
  have a: "get_value flood_board 0 0 = Inr 0" by code_simp
  have b: "(0, 0) \<notin> revealed flood_board" "(0, 0) \<notin> flagged flood_board"
    "(3, 0) \<notin> flagged flood_board" "(3, 0) \<notin> revealed flood_board"
    by (simp_all add: flood_board_def mined_board_def)
  have c: "(3, 0) \<notin> revealed (snd (reveal_square flood_board 0 0))"
    unfolding flood_board_reveal by simp
  have mem: "(3, 0) \<in> region_with_border flood_board (0, 0) - flagged flood_board - revealed flood_board"
    using flood_board_zero_region b by (simp add: region_with_border_def)
  have d: "fst (reveal_square flood_board 0 0)
     \<noteq> Inr (region_with_border flood_board (0, 0) - flagged flood_board - revealed flood_board)"
  proof
    assume "fst (reveal_square flood_board 0 0)
      = Inr (region_with_border flood_board (0, 0) - flagged flood_board - revealed flood_board)"
    then have "{(0, 0), (1, 0)}
      = region_with_border flood_board (0, 0) - flagged flood_board - revealed flood_board"
      unfolding flood_board_reveal by simp
    with mem have "(3 :: int, 0 :: int) \<in> {(0, 0), (1, 0)}" by simp
    then show False by simp
  qed
  from place_mines_mined_board flood_board_built flood_board_zero_region a b c d
  show ?thesis by simp
qed

text \<open>
  C2, amended. On a well-shaped board, revealing an unrevealed, unflagged cell
  holding 0 returns exactly the cells reachable from it through neighbours, a
  neighbour being one of the up to eight cells of the grid at distance at most one in
  each coordinate, diagonals included: the expansion moves on only from cells that
  hold 0, and enters only cells that were neither revealed nor flagged before the
  call. These are exactly the cells added to \<open>revealed\<close>, and nothing else of the
  board changes. The result is the same with a queue as with a stack. It is disjoint
  from the cells revealed or flagged before, it is contained in the connected region
  of zeros with its border, and it is equal to it when no cell was revealed or
  flagged before the call.
\<close>

theorem reveal_square_region:
  assumes ws: "well_shaped b" and fresh: "(x, y) \<notin> revealed b" "(x, y) \<notin> flagged b"
    and z: "get_value b x y = Inr 0"
  shows "reveal_square b x y
           = (Inr (region b (x, y)), b\<lparr>revealed := revealed b \<union> region b (x, y)\<rparr>) \<and>
         reveal_square_queue b x y = reveal_square b x y \<and>
         region b (x, y) \<inter> revealed b = {} \<and> region b (x, y) \<inter> flagged b = {} \<and>
         region b (x, y) \<subseteq> region_with_border b (x, y) \<and>
         (revealed b = {} \<and> flagged b = {} \<longrightarrow> region b (x, y) = region_with_border b (x, y))"
proof -
  have zc: "zero_cell b (x, y)" using z by (simp add: zero_cell_def)
  have 1: "reveal_square b x y
           = (Inr (region b (x, y)), b\<lparr>revealed := revealed b \<union> region b (x, y)\<rparr>)"
    unfolding reveal_square_def by (rule reveal_with_region[OF ws fresh z])
  have 2: "reveal_square_queue b x y = reveal_square b x y"
    unfolding 1 reveal_square_queue_def by (rule reveal_with_region[OF ws fresh z])
  have 3: "region b (x, y) \<inter> revealed b = {}" "region b (x, y) \<inter> flagged b = {}"
    using region_fresh[OF fresh] by blast+
  have 4: "region b (x, y) \<subseteq> region_with_border b (x, y)"
    using region_in_closure[OF zc] by blast
  have 5: "region b (x, y) = region_with_border b (x, y)" if "revealed b = {} \<and> flagged b = {}"
    using that 4 closure_in_region[OF zc] by blast
  from 1 2 3 4 5 show ?thesis by blast
qed

theorem reveal_square_region_witness:
  "well_shaped flood_board \<and> (0, 0) \<notin> revealed flood_board \<and> (0, 0) \<notin> flagged flood_board \<and>
   get_value flood_board 0 0 = Inr 0 \<and>
   region flood_board (0, 0) = {(0, 0), (1, 0)} \<and>
   reveal_square_queue flood_board 0 0 = reveal_square flood_board 0 0 \<and>
   place_mines pick_alternate (init 3 3 2) 0 0 = Inr corner_board \<and>
   well_shaped corner_board \<and> revealed corner_board = {} \<and> flagged corner_board = {} \<and>
   get_value corner_board 0 0 = Inr 0 \<and>
   reveal_square corner_board 0 0
     = (Inr {(0, 0), (1, 0), (0, 1), (1, 1)},
        corner_board\<lparr>revealed := {(0, 0), (1, 0), (0, 1), (1, 1)}\<rparr>) \<and>
   region corner_board (0, 0) = {(0, 0), (1, 0), (0, 1), (1, 1)} \<and>
   region_with_border corner_board (0, 0) = {(0, 0), (1, 0), (0, 1), (1, 1)} \<and>
   reveal_square_queue corner_board 0 0 = reveal_square corner_board 0 0 \<and>
   (1, 1) \<in> neighbours corner_board 0 0 \<and>
   \<not> zero_cell corner_board (1, 0) \<and> \<not> zero_cell corner_board (0, 1)"
proof -
  have ws: "well_shaped flood_board" by code_simp
  have fresh: "(0, 0) \<notin> revealed flood_board" "(0, 0) \<notin> flagged flood_board"
    by (simp_all add: flood_board_def mined_board_def)
  have z: "get_value flood_board 0 0 = Inr 0" by code_simp
  have ws': "well_shaped corner_board" by code_simp
  have empty: "revealed corner_board = {}" "flagged corner_board = {}"
    by (simp_all add: corner_board_def)
  then have fresh': "(0, 0) \<notin> revealed corner_board" "(0, 0) \<notin> flagged corner_board"
    by simp_all
  have z': "get_value corner_board 0 0 = Inr 0" by code_simp
  have diagonal: "(1, 1) \<in> neighbours corner_board 0 0"
    by (simp add: neighbours_def corner_board_def)
  have border: "\<not> zero_cell corner_board (1, 0)" "\<not> zero_cell corner_board (0, 1)"
    by code_simp+
  from reveal_square_region[OF ws fresh z] reveal_square_region[OF ws' fresh' z']
    flood_board_reveal corner_board_reveal place_mines_corner_board ws fresh z ws' empty z'
    diagonal border
  show ?thesis by simp
qed

section \<open>Mine placement\<close>

text \<open>The two write loops of \<open>place_mines\<close>: which cells they change, and when they raise.\<close>

lemma fold_err_append:
  "fold_err f (xs @ ys) s = (case fold_err f xs s of Inl e \<Rightarrow> Inl e | Inr s' \<Rightarrow> fold_err f ys s')"
  by (induction xs arbitrary: s) (auto split: sum.splits)

lemma fold_err_map: "fold_err f (map h xs) s = fold_err (\<lambda>x. f (h x)) xs s"
  by (induction xs arbitrary: s) (auto split: sum.splits)

lemma fold_err_nested:
  "fold_err (\<lambda>y g. fold_err (\<lambda>x g. F (x, y) g) xs g) ys s
     = fold_err F (concat (map (\<lambda>y. map (\<lambda>x. (x, y)) xs) ys)) s"
  by (induction ys arbitrary: s) (auto simp: fold_err_append fold_err_map split: sum.splits)

lemma same_shape_refl [simp]: "same_shape g g"
  by (simp add: same_shape_def)

lemma same_shape_trans: "same_shape g g1 \<Longrightarrow> same_shape g1 g2 \<Longrightarrow> same_shape g g2"
  by (simp add: same_shape_def)

lemma same_shape_update: "same_shape g (g[j := (g ! j)[i := v]])"
proof (cases "j < length g")
  case True
  then show ?thesis by (simp add: same_shape_def nth_list_update)
next
  case False
  then show ?thesis by (simp add: same_shape_def list_update_beyond)
qed

lemma set_cell_nonneg:
  "0 \<le> x \<Longrightarrow> 0 \<le> y \<Longrightarrow>
   set_cell g x y v =
     (if nat y < length g \<and> nat x < length (g ! nat y)
      then Inr (g[nat y := (g ! nat y)[nat x := v]]) else Inl IndexError)"
  by (auto simp: set_cell_def py_set_def py_index_def)

lemma nth_cell_update:
  "j < length g \<Longrightarrow> i < length (g ! j) \<Longrightarrow>
   g[j := (g ! j)[i := v]] ! j' ! i' = (if j' = j \<and> i' = i then v else g ! j' ! i')"
  by (auto simp: nth_list_update)

lemma fold_writes:
  assumes F: "\<And>x y g. F (x, y) g = (if P (x, y) then set_cell g x y (f (x, y)) else Inr g)"
    and nonneg: "\<forall>(x, y) \<in> set cs. 0 \<le> x \<and> 0 \<le> y"
    and ok: "fold_err F cs g = Inr g'"
  shows "same_shape g g' \<and>
    (\<forall>x y. 0 \<le> x \<longrightarrow> 0 \<le> y \<longrightarrow>
       (if (x, y) \<in> set cs \<and> P (x, y)
        then nat y < length g \<and> nat x < length (g ! nat y) \<and> g' ! nat y ! nat x = f (x, y)
        else g' ! nat y ! nat x = g ! nat y ! nat x))"
  using nonneg ok
proof (induction cs arbitrary: g)
  case Nil
  then show ?case by simp
next
  case (Cons c rest)
  obtain cx cy where c: "c = (cx, cy)" by (cases c)
  from Cons.prems(1) c have cn: "0 \<le> cx" "0 \<le> cy" and rn: "\<forall>(x, y) \<in> set rest. 0 \<le> x \<and> 0 \<le> y"
    by simp_all
  from Cons.prems(2) obtain g1 where g1: "F c g = Inr g1" and rest: "fold_err F rest g1 = Inr g'"
    by (cases "F c g") simp_all
  from Cons.IH[OF rn rest] have sh': "same_shape g1 g'"
    and ih: "\<And>x y. 0 \<le> x \<Longrightarrow> 0 \<le> y \<Longrightarrow>
       (if (x, y) \<in> set rest \<and> P (x, y)
        then nat y < length g1 \<and> nat x < length (g1 ! nat y) \<and> g' ! nat y ! nat x = f (x, y)
        else g' ! nat y ! nat x = g1 ! nat y ! nat x)"
    by blast+
  show ?case
  proof (cases "P (cx, cy)")
    case False
    with g1 c F have gg: "g1 = g" by simp
    have eq: "((x, y) \<in> set (c # rest) \<and> P (x, y)) = ((x, y) \<in> set rest \<and> P (x, y))" for x y
      using False c by auto
    from sh' ih show ?thesis unfolding gg eq by blast
  next
    case True
    from g1 c F True have sc: "set_cell g cx cy (f (cx, cy)) = Inr g1" by simp
    from sc cn have inr: "nat cy < length g" "nat cx < length (g ! nat cy)"
      by (simp_all add: set_cell_nonneg split: if_splits)
    from sc cn inr have g1eq: "g1 = g[nat cy := (g ! nat cy)[nat cx := f (cx, cy)]]"
      by (simp add: set_cell_nonneg)
    have sh1: "same_shape g g1" unfolding g1eq by (rule same_shape_update)
    have sh: "same_shape g g'" by (rule same_shape_trans[OF sh1 sh'])
    have "if (x, y) \<in> set (c # rest) \<and> P (x, y)
        then nat y < length g \<and> nat x < length (g ! nat y) \<and> g' ! nat y ! nat x = f (x, y)
        else g' ! nat y ! nat x = g ! nat y ! nat x" if xy: "0 \<le> x" "0 \<le> y" for x y
    proof -
      have g1v: "g1 ! nat y ! nat x = (if (x, y) = (cx, cy) then f (cx, cy) else g ! nat y ! nat x)"
        unfolding g1eq using xy cn
        by (simp add: nth_cell_update[OF inr] eq_nat_nat_iff)
      from sh1 have len: "length g1 = length g" "length (g1 ! nat y) = length (g ! nat y)"
        by (simp_all add: same_shape_def)
      show ?thesis
      proof (cases "(x, y) \<in> set rest \<and> P (x, y)")
        case True
        with ih[OF xy] len show ?thesis by simp
      next
        case nr: False
        with ih[OF xy] have e: "g' ! nat y ! nat x = g1 ! nat y ! nat x" by simp
        show ?thesis
        proof (cases "(x, y) = (cx, cy)")
          case True
          with e g1v inr c \<open>P (cx, cy)\<close> show ?thesis by simp
        next
          case False
          with nr c have neg: "\<not> ((x, y) \<in> set (c # rest) \<and> P (x, y))" by auto
          from e g1v False have "g' ! nat y ! nat x = g ! nat y ! nat x" by auto
          then show ?thesis by (subst if_not_P[OF neg])
        qed
      qed
    qed
    with sh show ?thesis by blast
  qed
qed

lemma fold_writes_total:
  assumes F: "\<And>x y g. F (x, y) g = (if P (x, y) then set_cell g x y (f (x, y)) else Inr g)"
    and inr: "\<forall>(x, y) \<in> set cs. 0 \<le> x \<and> 0 \<le> y \<and> nat y < length g \<and> nat x < length (g ! nat y)"
  shows "\<exists>g'. fold_err F cs g = Inr g'"
  using inr
proof (induction cs arbitrary: g)
  case Nil
  then show ?case by simp
next
  case (Cons c rest)
  obtain cx cy where c: "c = (cx, cy)" by (cases c)
  from Cons.prems c have cok: "0 \<le> cx" "0 \<le> cy" "nat cy < length g" "nat cx < length (g ! nat cy)"
    by simp_all
  from Cons.prems have rok: "\<forall>(x, y) \<in> set rest. 0 \<le> x \<and> 0 \<le> y \<and> nat y < length g \<and> nat x < length (g ! nat y)"
    by simp
  define g1 where "g1 = (if P (cx, cy) then g[nat cy := (g ! nat cy)[nat cx := f (cx, cy)]] else g)"
  have g1: "F c g = Inr g1"
    unfolding g1_def c F using cok by (simp add: set_cell_nonneg)
  have sh: "same_shape g g1"
    unfolding g1_def by (simp add: same_shape_update)
  then have len: "length g1 = length g" "\<And>j. length (g1 ! j) = length (g ! j)"
    by (simp_all add: same_shape_def)
  from rok have "\<forall>(x, y) \<in> set rest. 0 \<le> x \<and> 0 \<le> y \<and> nat y < length g1 \<and> nat x < length (g1 ! nat y)"
    by (simp only: len)
  from Cons.IH[OF this] obtain g' where "fold_err F rest g1 = Inr g'" by blast
  with g1 show ?case by simp
qed

lemma set_py_range: "set (py_range n) = {0..<n}"
proof -
  have "set (py_range n) = int ` {0..<nat n}" by (simp add: py_range_def)
  also have "\<dots> = {0..<n}"
  proof (rule set_eqI)
    fix i :: int
    show "i \<in> int ` {0..<nat n} \<longleftrightarrow> i \<in> {0..<n}"
    proof
      assume "i \<in> int ` {0..<nat n}"
      then show "i \<in> {0..<n}" by auto
    next
      assume i: "i \<in> {0..<n}"
      then have "nat i \<in> {0..<nat n}" "i = int (nat i)" by auto
      then show "i \<in> int ` {0..<nat n}" by (rule_tac image_eqI)
    qed
  qed
  finally show ?thesis .
qed

lemma distinct_py_range: "distinct (py_range n)"
  by (simp add: py_range_def distinct_map inj_on_def)

lemma set_available_positions:
  "set (available_positions b fx fy) = grid_cells b - safe_zone b fx fy"
  by (auto simp: available_positions_def set_py_range grid_cells_def)

lemma set_all_cells:
  "set (concat (map (\<lambda>y. map (\<lambda>x. (x, y)) (py_range (width b))) (py_range (height b))))
     = grid_cells b"
  by (auto simp: set_py_range grid_cells_def)

lemma get_value_nonneg:
  "0 \<le> x \<Longrightarrow> 0 \<le> y \<Longrightarrow> nat y < length (grid b) \<Longrightarrow> nat x < length (grid b ! nat y) \<Longrightarrow>
   get_value b x y = Inr (grid b ! nat y ! nat x)"
  by (simp add: get_value_def py_get_def py_index_def nat_less_iff)

lemma selected_in_grid:
  "sample_valid sample b fx fy \<Longrightarrow> set (selected sample b fx fy) \<subseteq> grid_cells b - safe_zone b fx fy"
  by (simp add: sample_valid_def is_sample_def set_available_positions)

lemma count_adjacent_mines_grid_update [simp]:
  "count_adjacent_mines (b\<lparr>grid := g\<rparr>) x y = count_adjacent_mines b x y"
  by (simp add: count_adjacent_mines_def)

lemma place_mines_unfold:
  "place_mines sample b fx fy =
     (if min (num_mines b) (int (length (available_positions b fx fy))) < 0 then Inl ValueError
      else case fold_err (\<lambda>(x, y) g. set_cell g x y (- 1)) (selected sample b fx fy) (grid b) of
             Inl e \<Rightarrow> Inl e
           | Inr g1 \<Rightarrow>
              (case fold_err (\<lambda>(x, y) g.
                       if (x, y) \<notin> set (selected sample b fx fy)
                       then set_cell g x y
                              (count_adjacent_mines (b\<lparr>mine_positions := set (selected sample b fx fy)\<rparr>) x y)
                       else Inr g)
                     (concat (map (\<lambda>y. map (\<lambda>x. (x, y)) (py_range (width b))) (py_range (height b)))) g1 of
                 Inl e \<Rightarrow> Inl e
               | Inr g2 \<Rightarrow> Inr (b\<lparr>mine_positions := set (selected sample b fx fy), grid := g2\<rparr>)))"
proof -
  define sel where "sel = selected sample b fx fy"
  define b1 where "b1 = b\<lparr>mine_positions := set sel\<rparr>"
  define F where "F = (\<lambda>(x, y) g. if (x, y) \<notin> set sel
                         then set_cell g x y (count_adjacent_mines b1 x y) else Inr g)"
  have b1: "mine_positions b1 = set sel" "width b1 = width b" "height b1 = height b"
    "grid b1 = grid b"
    by (simp_all add: b1_def)
  have nested: "fold_err (\<lambda>y g. fold_err (\<lambda>x g.
                    if (x, y) \<notin> set sel
                    then set_cell g x y (count_adjacent_mines b1 x y) else Inr g)
                  (py_range (width b)) g) (py_range (height b)) g1
      = fold_err F (concat (map (\<lambda>y. map (\<lambda>x. (x, y)) (py_range (width b))) (py_range (height b)))) g1"
    for g1
    using fold_err_nested[of F "py_range (width b)" "py_range (height b)" g1]
    by (simp only: F_def case_prod_conv)
  have "place_mines sample b fx fy =
     (if min (num_mines b) (int (length (available_positions b fx fy))) < 0 then Inl ValueError
      else case fold_err (\<lambda>(x, y) g. set_cell g x y (- 1)) sel (grid b1) of
             Inl e \<Rightarrow> Inl e
           | Inr g1 \<Rightarrow>
              (case fold_err (\<lambda>y g. fold_err (\<lambda>x g.
                            if (x, y) \<notin> mine_positions b1
                            then set_cell g x y (count_adjacent_mines b1 x y) else Inr g)
                          (py_range (width b1)) g) (py_range (height b1)) g1 of
                 Inl e \<Rightarrow> Inl e
               | Inr g2 \<Rightarrow> Inr (b1\<lparr>grid := g2\<rparr>)))"
    unfolding place_mines_def Let_def sel_def selected_def b1_def ..
  then show ?thesis
    unfolding b1 nested unfolding F_def b1_def sel_def by simp
qed

lemma place_mines_values:
  assumes sv: "sample_valid sample b fx fy" and ok: "place_mines sample b fx fy = Inr b'"
  shows "b' = b\<lparr>mine_positions := set (selected sample b fx fy), grid := grid b'\<rparr> \<and>
    (\<forall>x y. (x, y) \<in> grid_cells b \<longrightarrow>
       get_value b' x y
         = Inr (if (x, y) \<in> mine_positions b' then - 1 else count_adjacent_mines b' x y))"
proof -
  define sel where "sel = selected sample b fx fy"
  define b1 where "b1 = b\<lparr>mine_positions := set sel\<rparr>"
  define cells where
    "cells = concat (map (\<lambda>y. map (\<lambda>x. (x, y)) (py_range (width b))) (py_range (height b)))"
  define F1 where "F1 = (\<lambda>(x, y) g. set_cell g x y (- 1))"
  define F2 where "F2 = (\<lambda>(x, y) g. if (x, y) \<notin> set sel
                         then set_cell g x y (count_adjacent_mines b1 x y) else Inr g)"
  from ok obtain g1 g2 where f1: "fold_err F1 sel (grid b) = Inr g1"
    and f2: "fold_err F2 cells g1 = Inr g2"
    and b': "b' = b\<lparr>mine_positions := set sel, grid := g2\<rparr>"
    unfolding place_mines_unfold sel_def[symmetric] b1_def[symmetric] cells_def[symmetric]
      F1_def[symmetric] F2_def[symmetric]
    by (auto split: if_splits sum.splits)
  have selsub: "set sel \<subseteq> grid_cells b" using selected_in_grid[OF sv] by (auto simp: sel_def)
  have nn1: "\<forall>(x, y) \<in> set sel. 0 \<le> x \<and> 0 \<le> y" using selsub by (auto simp: grid_cells_def)
  have nn2: "\<forall>(x, y) \<in> set cells. 0 \<le> x \<and> 0 \<le> y"
    unfolding cells_def set_all_cells by (auto simp: grid_cells_def)
  have w1: "same_shape (grid b) g1 \<and>
    (\<forall>x y. 0 \<le> x \<longrightarrow> 0 \<le> y \<longrightarrow>
       (if (x, y) \<in> set sel \<and> True
        then nat y < length (grid b) \<and> nat x < length (grid b ! nat y) \<and> g1 ! nat y ! nat x = - 1
        else g1 ! nat y ! nat x = grid b ! nat y ! nat x))"
    by (rule fold_writes[where P = "\<lambda>_. True" and f = "\<lambda>_. - 1", OF _ nn1 f1]) (simp add: F1_def)
  have w2: "same_shape g1 g2 \<and>
    (\<forall>x y. 0 \<le> x \<longrightarrow> 0 \<le> y \<longrightarrow>
       (if (x, y) \<in> set cells \<and> (x, y) \<notin> set sel
        then nat y < length g1 \<and> nat x < length (g1 ! nat y) \<and>
             g2 ! nat y ! nat x = (case (x, y) of (x, y) \<Rightarrow> count_adjacent_mines b1 x y)
        else g2 ! nat y ! nat x = g1 ! nat y ! nat x))"
    by (rule fold_writes[where P = "\<lambda>c. c \<notin> set sel" and f = "\<lambda>(x, y). count_adjacent_mines b1 x y",
          OF _ nn2 f2]) (simp add: F2_def)
  from w1 w2 have len: "length g2 = length (grid b)" "\<And>j. length (g2 ! j) = length (grid b ! j)"
    by (simp_all add: same_shape_def)
  have cnt: "count_adjacent_mines b' x y = count_adjacent_mines b1 x y" for x y
    by (simp add: b' b1_def)
  have val: "get_value b' x y
         = Inr (if (x, y) \<in> mine_positions b' then - 1 else count_adjacent_mines b' x y)"
    if xy: "(x, y) \<in> grid_cells b" for x y
  proof -
    from xy have nn: "0 \<le> x" "0 \<le> y" by (auto simp: grid_cells_def)
    from xy have incells: "(x, y) \<in> set cells" unfolding cells_def set_all_cells .
    show ?thesis
    proof (cases "(x, y) \<in> set sel")
      case True
      with w1 nn have r: "nat y < length (grid b)" "nat x < length (grid b ! nat y)"
        and v1: "g1 ! nat y ! nat x = - 1" by auto
      from w2 nn True have "g2 ! nat y ! nat x = g1 ! nat y ! nat x" by auto
      with v1 have v: "g2 ! nat y ! nat x = - 1" by simp
      from r len have "nat y < length (grid b')" "nat x < length (grid b' ! nat y)"
        by (simp_all add: b')
      from get_value_nonneg[OF nn this] v True show ?thesis by (simp add: b')
    next
      case False
      with w2 nn incells have r: "nat y < length g1" "nat x < length (g1 ! nat y)"
        and v: "g2 ! nat y ! nat x = count_adjacent_mines b1 x y" by auto
      from w2 have "length g2 = length g1" "length (g2 ! nat y) = length (g1 ! nat y)"
        by (simp_all add: same_shape_def)
      with r have "nat y < length (grid b')" "nat x < length (grid b' ! nat y)"
        by (simp_all add: b')
      from get_value_nonneg[OF nn this] v False cnt show ?thesis by (simp add: b')
    qed
  qed
  have "b' = b\<lparr>mine_positions := set (selected sample b fx fy), grid := grid b'\<rparr>"
    by (simp add: b' sel_def)
  with val show ?thesis by blast
qed

lemma well_shaped_rows:
  assumes "well_shaped b" "(x, y) \<in> grid_cells b"
  shows "nat y < length (grid b)" "nat x < length (grid b ! nat y)"
proof -
  from assms show y: "nat y < length (grid b)"
    by (auto simp: well_shaped_def grid_cells_def)
  then have "grid b ! nat y \<in> set (grid b)" by simp
  with assms show "nat x < length (grid b ! nat y)"
    by (auto simp: well_shaped_def grid_cells_def)
qed

lemma place_mines_total:
  assumes ws: "well_shaped b" and nm: "0 \<le> num_mines b" and sv: "sample_valid sample b fx fy"
  shows "\<exists>b'. place_mines sample b fx fy = Inr b'"
proof -
  define sel where "sel = selected sample b fx fy"
  define b1 where "b1 = b\<lparr>mine_positions := set sel\<rparr>"
  define cells where
    "cells = concat (map (\<lambda>y. map (\<lambda>x. (x, y)) (py_range (width b))) (py_range (height b)))"
  define F1 where "F1 = (\<lambda>(x, y) g. set_cell g x y (- 1))"
  define F2 where "F2 = (\<lambda>(x, y) g. if (x, y) \<notin> set sel
                         then set_cell g x y (count_adjacent_mines b1 x y) else Inr g)"
  have selsub: "set sel \<subseteq> grid_cells b" using selected_in_grid[OF sv] by (auto simp: sel_def)
  have r1: "\<forall>(x, y) \<in> set sel. 0 \<le> x \<and> 0 \<le> y \<and> nat y < length (grid b) \<and> nat x < length (grid b ! nat y)"
  proof (clarify)
    fix x y assume "(x, y) \<in> set sel"
    with selsub have g: "(x, y) \<in> grid_cells b" by auto
    then have "0 \<le> x" "0 \<le> y" by (auto simp: grid_cells_def)
    with well_shaped_rows[OF ws g]
    show "0 \<le> x \<and> 0 \<le> y \<and> nat y < length (grid b) \<and> nat x < length (grid b ! nat y)" by simp
  qed
  obtain g1 where f1: "fold_err F1 sel (grid b) = Inr g1"
    using fold_writes_total[where P = "\<lambda>_. True" and f = "\<lambda>_. - 1" and F = F1, OF _ r1]
    by (auto simp: F1_def)
  have nn1: "\<forall>(x, y) \<in> set sel. 0 \<le> x \<and> 0 \<le> y" using r1 by auto
  have "same_shape (grid b) g1"
    using fold_writes[where P = "\<lambda>_. True" and f = "\<lambda>_. - 1" and F = F1, OF _ nn1 f1]
    by (simp add: F1_def)
  then have len: "length g1 = length (grid b)" "\<And>j. length (g1 ! j) = length (grid b ! j)"
    by (simp_all add: same_shape_def)
  have r2: "\<forall>(x, y) \<in> set cells. 0 \<le> x \<and> 0 \<le> y \<and> nat y < length g1 \<and> nat x < length (g1 ! nat y)"
  proof (clarify)
    fix x y assume "(x, y) \<in> set cells"
    then have g: "(x, y) \<in> grid_cells b" unfolding cells_def set_all_cells .
    then have "0 \<le> x" "0 \<le> y" by (auto simp: grid_cells_def)
    with well_shaped_rows[OF ws g] len
    show "0 \<le> x \<and> 0 \<le> y \<and> nat y < length g1 \<and> nat x < length (g1 ! nat y)" by simp
  qed
  obtain g2 where f2: "fold_err F2 cells g1 = Inr g2"
    using fold_writes_total[where P = "\<lambda>c. c \<notin> set sel" and f = "\<lambda>(x, y). count_adjacent_mines b1 x y"
        and F = F2, OF _ r2]
    by (auto simp: F2_def)
  from nm have "\<not> min (num_mines b) (int (length (available_positions b fx fy))) < 0" by simp
  with f1 f2 show ?thesis
    unfolding place_mines_unfold sel_def[symmetric] b1_def[symmetric] cells_def[symmetric]
      F1_def[symmetric] F2_def[symmetric]
    by simp
qed

lemma safe_zone_in_grid: "(fx, fy) \<in> grid_cells b \<Longrightarrow> safe_zone b fx fy \<subseteq> grid_cells b"
  using get_adjacent_squares_in_grid[of b fx fy] by (auto simp: safe_zone_def)

lemma safe_zone_neighbours: "safe_zone b fx fy = insert (fx, fy) (neighbours b fx fy)"
  by (simp add: safe_zone_def set_get_adjacent_squares)

lemma place_mines_clicked_board:
  "place_mines pick_first (init 5 5 3) 1 1 = Inr clicked_board"
  by code_simp

text \<open>
  C1. For every board and every first click \<open>(fx, fy)\<close> inside the grid, when
  \<open>random.sample\<close> keeps its contract, \<open>place_mines\<close> returns on every well-shaped
  board with a non-negative mine count, and after it neither the clicked cell nor any
  of its neighbours inside the grid is a mine: none of these cells is in
  \<open>mine_positions\<close>, and each holds a number other than the mine number \<open>-1\<close>.
\<close>

theorem safe_first_click:
  assumes sv: "sample_valid sample b fx fy" and inb: "(fx, fy) \<in> grid_cells b"
  shows "(well_shaped b \<and> 0 \<le> num_mines b \<longrightarrow> (\<exists>b'. place_mines sample b fx fy = Inr b')) \<and>
         (\<forall>b'. place_mines sample b fx fy = Inr b' \<longrightarrow>
            (\<forall>c \<in> insert (fx, fy) (neighbours b fx fy).
               c \<notin> mine_positions b' \<and> \<not> is_mine b' (fst c) (snd c) \<and>
               get_value b' (fst c) (snd c) \<noteq> Inr (- 1) \<and>
               (\<exists>v. get_value b' (fst c) (snd c) = Inr v \<and> v \<noteq> - 1)))"
proof (intro conjI impI allI ballI)
  assume "well_shaped b \<and> 0 \<le> num_mines b"
  then show "\<exists>b'. place_mines sample b fx fy = Inr b'"
    using place_mines_total[OF _ _ sv] by blast
next
  fix b' c
  assume ok: "place_mines sample b fx fy = Inr b'"
    and "c \<in> insert (fx, fy) (neighbours b fx fy)"
  then have c: "c \<in> safe_zone b fx fy" by (simp only: safe_zone_neighbours)
  from place_mines_values[OF sv ok]
  have mp: "mine_positions b' = set (selected sample b fx fy)"
    and val: "\<And>x y. (x, y) \<in> grid_cells b \<Longrightarrow> get_value b' x y
         = Inr (if (x, y) \<in> mine_positions b' then - 1 else count_adjacent_mines b' x y)"
    by (metis board.select_convs(5) board.surjective board.update_convs(4,5), blast)
  from selected_in_grid[OF sv] c mp show nm: "c \<notin> mine_positions b'" by auto
  then show "\<not> is_mine b' (fst c) (snd c)" by (simp add: is_mine_def)
  from safe_zone_in_grid[OF inb] c have "(fst c, snd c) \<in> grid_cells b" by auto
  from val[OF this] nm
  have gv: "get_value b' (fst c) (snd c) = Inr (count_adjacent_mines b' (fst c) (snd c))" by simp
  moreover have ne: "count_adjacent_mines b' (fst c) (snd c) \<noteq> - 1"
    by (simp add: count_adjacent_mines_card)
  ultimately show "\<exists>v. get_value b' (fst c) (snd c) = Inr v \<and> v \<noteq> - 1" by blast
  from gv ne show "get_value b' (fst c) (snd c) \<noteq> Inr (- 1)" by simp
qed

theorem safe_first_click_witness:
  "sample_valid pick_first (init 5 5 3) 1 1 \<and> (1, 1) \<in> grid_cells (init 5 5 3) \<and>
   well_shaped (init 5 5 3) \<and> 0 \<le> num_mines (init 5 5 3) \<and>
   place_mines pick_first (init 5 5 3) 1 1 = Inr clicked_board \<and>
   mine_positions clicked_board = {(0, 3), (0, 4), (1, 3)} \<and>
   (1, 1) \<notin> mine_positions clicked_board \<and> get_value clicked_board 1 1 = Inr 0 \<and>
   (0, 0) \<notin> mine_positions clicked_board \<and> get_value clicked_board 0 0 = Inr 0 \<and>
   (1, 0) \<notin> mine_positions clicked_board \<and> get_value clicked_board 1 0 = Inr 0 \<and>
   (2, 0) \<notin> mine_positions clicked_board \<and> get_value clicked_board 2 0 = Inr 0 \<and>
   (0, 1) \<notin> mine_positions clicked_board \<and> get_value clicked_board 0 1 = Inr 0 \<and>
   (2, 1) \<notin> mine_positions clicked_board \<and> get_value clicked_board 2 1 = Inr 0 \<and>
   (0, 2) \<notin> mine_positions clicked_board \<and> get_value clicked_board 0 2 = Inr 2 \<and>
   (1, 2) \<notin> mine_positions clicked_board \<and> get_value clicked_board 1 2 = Inr 2 \<and>
   (2, 2) \<notin> mine_positions clicked_board \<and> get_value clicked_board 2 2 = Inr 1 \<and>
   \<not> is_mine clicked_board 1 1 \<and> \<not> is_mine clicked_board 0 2 \<and> \<not> is_mine clicked_board 1 2"
proof -
  have sv: "sample_valid pick_first (init 5 5 3) 1 1" by code_simp
  have ws: "well_shaped (init 5 5 3)" by code_simp
  have inb: "(1, 1) \<in> grid_cells (init 5 5 3)"
    by (simp add: grid_cells_def init_def initialize_grid_def)
  have nm: "0 \<le> num_mines (init 5 5 3)" by (simp add: init_def initialize_grid_def)
  have nb: "(0, 0) \<in> neighbours (init 5 5 3) 1 1" "(1, 0) \<in> neighbours (init 5 5 3) 1 1"
    "(2, 0) \<in> neighbours (init 5 5 3) 1 1" "(0, 1) \<in> neighbours (init 5 5 3) 1 1"
    "(2, 1) \<in> neighbours (init 5 5 3) 1 1" "(0, 2) \<in> neighbours (init 5 5 3) 1 1"
    "(1, 2) \<in> neighbours (init 5 5 3) 1 1" "(2, 2) \<in> neighbours (init 5 5 3) 1 1"
    by (simp_all add: neighbours_def init_def initialize_grid_def)
  have v: "get_value clicked_board 1 1 = Inr 0" "get_value clicked_board 0 0 = Inr 0"
    "get_value clicked_board 1 0 = Inr 0" "get_value clicked_board 2 0 = Inr 0"
    "get_value clicked_board 0 1 = Inr 0" "get_value clicked_board 2 1 = Inr 0"
    "get_value clicked_board 0 2 = Inr 2" "get_value clicked_board 1 2 = Inr 2"
    "get_value clicked_board 2 2 = Inr 1"
    by code_simp+
  have m: "mine_positions clicked_board = {(0, 3), (0, 4), (1, 3)}"
    by (simp add: clicked_board_def)
  from safe_first_click[OF sv inb] place_mines_clicked_board
  have safe: "\<forall>c \<in> insert (1, 1) (neighbours (init 5 5 3) 1 1).
      c \<notin> mine_positions clicked_board \<and> \<not> is_mine clicked_board (fst c) (snd c)"
    by blast
  from safe nb have "(1, 1) \<notin> mine_positions clicked_board" "(0, 0) \<notin> mine_positions clicked_board"
    "(1, 0) \<notin> mine_positions clicked_board" "(2, 0) \<notin> mine_positions clicked_board"
    "(0, 1) \<notin> mine_positions clicked_board" "(2, 1) \<notin> mine_positions clicked_board"
    "(0, 2) \<notin> mine_positions clicked_board" "(1, 2) \<notin> mine_positions clicked_board"
    "(2, 2) \<notin> mine_positions clicked_board"
    "\<not> is_mine clicked_board 1 1" "\<not> is_mine clicked_board 0 2" "\<not> is_mine clicked_board 1 2"
    by fastforce+
  with sv ws inb nm v m place_mines_clicked_board show ?thesis by simp
qed

text \<open>
  C3. After \<open>place_mines\<close>, every cell of the grid that is not a mine holds the
  number of mines among its neighbours inside the grid. A neighbour is an in-grid cell
  at distance at most one in each coordinate, with no wraparound: there are at most 8
  of them, at most 5 for a cell on an edge and at most 3 for a corner.
\<close>

theorem adjacency_counts:
  assumes sv: "sample_valid sample b fx fy" and ok: "place_mines sample b fx fy = Inr b'"
    and cell: "(x, y) \<in> grid_cells b'" and nomine: "(x, y) \<notin> mine_positions b'"
  shows "get_value b' x y = Inr (int (card (neighbours b' x y \<inter> mine_positions b'))) \<and>
         card (neighbours b' x y) \<le> 8 \<and>
         (x = 0 \<or> y = 0 \<or> x = width b' - 1 \<or> y = height b' - 1 \<longrightarrow> card (neighbours b' x y) \<le> 5) \<and>
         ((x = 0 \<or> x = width b' - 1) \<and> (y = 0 \<or> y = height b' - 1) \<longrightarrow> card (neighbours b' x y) \<le> 3)"
proof -
  from place_mines_values[OF sv ok]
  have b': "b' = b\<lparr>mine_positions := set (selected sample b fx fy), grid := grid b'\<rparr>"
    and val: "\<And>x y. (x, y) \<in> grid_cells b \<Longrightarrow> get_value b' x y
         = Inr (if (x, y) \<in> mine_positions b' then - 1 else count_adjacent_mines b' x y)"
    by blast+
  have "grid_cells b' = grid_cells b" by (subst b') (simp add: grid_cells_def)
  with cell val nomine have "get_value b' x y = Inr (count_adjacent_mines b' x y)" by simp
  then show ?thesis
    using card_neighbours_le_8 card_neighbours_edge card_neighbours_corner
    by (simp add: count_adjacent_mines_card)
qed

theorem adjacency_counts_witness:
  "sample_valid pick_last (init 7 1 1) 0 0 \<and>
   place_mines pick_last (init 7 1 1) 0 0 = Inr mined_board \<and>
   (5, 0) \<in> grid_cells mined_board \<and> (5, 0) \<notin> mine_positions mined_board \<and>
   get_value mined_board 5 0 = Inr (int (card (neighbours mined_board 5 0 \<inter> mine_positions mined_board))) \<and>
   get_value mined_board 5 0 = Inr 1 \<and>
   card (neighbours mined_board 5 0) \<le> 5 \<and>
   (0, 0) \<in> grid_cells mined_board \<and> (0, 0) \<notin> mine_positions mined_board \<and>
   get_value mined_board 0 0 = Inr 0 \<and>
   card (neighbours mined_board 0 0 \<inter> mine_positions mined_board) = 0 \<and>
   card (neighbours mined_board 0 0) \<le> 3"
proof -
  have sv: "sample_valid pick_last (init 7 1 1) 0 0" by code_simp
  have ok: "place_mines pick_last (init 7 1 1) 0 0 = Inr mined_board" by code_simp
  have cell: "(5, 0) \<in> grid_cells mined_board" by (simp add: grid_cells_def mined_board_def)
  have nomine: "(5, 0) \<notin> mine_positions mined_board" by (simp add: mined_board_def)
  have cell0: "(0, 0) \<in> grid_cells mined_board" by (simp add: grid_cells_def mined_board_def)
  have nomine0: "(0, 0) \<notin> mine_positions mined_board" by (simp add: mined_board_def)
  have v: "get_value mined_board 5 0 = Inr 1" "get_value mined_board 0 0 = Inr 0" by code_simp+
  have e: "(0::int) = height mined_board - 1" by (simp add: mined_board_def)
  from adjacency_counts[OF sv ok cell nomine] adjacency_counts[OF sv ok cell0 nomine0]
    sv ok cell nomine cell0 nomine0 v e
  show ?thesis by simp
qed

section \<open>Game status\<close>

lemma reveal_square_frame:
  "snd (reveal_square b x y) = b\<lparr>revealed := revealed (snd (reveal_square b x y))\<rparr>"
proof -
  obtain r b1 where rw: "reveal_with LIFO b x y = (r, b1)" by (cases "reveal_with LIFO b x y")
  from reveal_with_frame[OF rw] rw show ?thesis by (simp add: reveal_square_def)
qed

lemma reveal_square_status:
  "game_over (snd (reveal_square b x y)) = game_over b"
  "won (snd (reveal_square b x y)) = won b"
  "mine_positions (snd (reveal_square b x y)) = mine_positions b"
  by (subst reveal_square_frame, simp)+

lemma reveal_square_mine:
  assumes "(x, y) \<notin> revealed b" "(x, y) \<notin> flagged b" "get_value b x y = Inr (- 1)"
  shows "reveal_square b x y = (Inr {(x, y)}, b\<lparr>revealed := insert (x, y) (revealed b)\<rparr>)"
  using assms by (simp add: reveal_square_def reveal_with_def Let_def)

lemma place_mines_keeps_status:
  "place_mines sample b x y = Inr b1 \<Longrightarrow>
   revealed b1 = revealed b \<and> flagged b1 = flagged b \<and> game_over b1 = game_over b \<and> won b1 = won b"
  by (auto simp: place_mines_def Let_def split: if_splits sum.splits)

lemma handle_click_outcome:
  assumes hc: "handle_click sample b x y = Inr (c, b')"
  shows "(c = Exploded \<longleftrightarrow> (x, y) \<notin> flagged b \<and> is_mine b' x y) \<and>
         (c = Exploded \<longrightarrow> revealed b' = revealed b) \<and>
         game_over b' = game_over b \<and> won b' = won b \<and>
         (\<forall>nr w. c = Opened nr w \<longrightarrow> (w \<longleftrightarrow> check_win b'))"
proof (cases "(x, y) \<in> flagged b")
  case True
  with hc have "c = Ignored" "b' = b" by (simp_all add: handle_click_def)
  with True show ?thesis by simp
next
  case False
  define placed where "placed = (if first_move b
              then (case place_mines sample b x y of
                      Inl e \<Rightarrow> Inl e
                    | Inr b1 \<Rightarrow> Inr (b1\<lparr>first_move := False\<rparr>))
              else Inr b)"
  from hc False
  have hc1: "(case placed of
                Inl e \<Rightarrow> Inl e
              | Inr b1 \<Rightarrow>
                  if is_mine b1 x y then Inr (Exploded, b1)
                  else (case reveal_square b1 x y of
                          (Inl e, b2) \<Rightarrow> Inl e
                        | (Inr newly_revealed, b2) \<Rightarrow>
                            Inr (Opened newly_revealed (check_win b2), b2))) = Inr (c, b')"
    unfolding handle_click_def placed_def by (simp only: if_False)
  then obtain b1 where p: "placed = Inr b1" by (cases placed) simp_all
  from hc1 have hc2: "(if is_mine b1 x y then Inr (Exploded, b1)
                  else (case reveal_square b1 x y of
                          (Inl e, b2) \<Rightarrow> Inl e
                        | (Inr newly_revealed, b2) \<Rightarrow>
                            Inr (Opened newly_revealed (check_win b2), b2))) = Inr (c, b')"
    unfolding p by (simp only: sum.case)
  have keep: "revealed b1 = revealed b \<and> flagged b1 = flagged b \<and>
              game_over b1 = game_over b \<and> won b1 = won b"
  proof (cases "first_move b")
    case True
    with p obtain b0 where "place_mines sample b x y = Inr b0" "b1 = b0\<lparr>first_move := False\<rparr>"
      unfolding placed_def by (cases "place_mines sample b x y") auto
    with place_mines_keeps_status[of sample b x y b0] show ?thesis by simp
  next
    case False
    with p show ?thesis by (simp add: placed_def)
  qed
  show ?thesis
  proof (cases "is_mine b1 x y")
    case True
    with hc2 have "c = Exploded" "b' = b1" by simp_all
    with True False keep show ?thesis by simp
  next
    case nm: False
    obtain r b2 where rs: "reveal_square b1 x y = (r, b2)" by (cases "reveal_square b1 x y")
    from hc2 nm have hc3: "(case r of Inl e \<Rightarrow> Inl e
                 | Inr newly_revealed \<Rightarrow> Inr (Opened newly_revealed (check_win b2), b2))
                 = Inr (c, b')"
      unfolding rs by simp
    have "\<exists>nr. c = Opened nr (check_win b2) \<and> b' = b2"
    proof (cases r)
      case (Inl e)
      with hc3 show ?thesis by simp
    next
      case (Inr nr)
      with hc3 have "(Opened nr (check_win b2), b2) = (c, b')" by (simp only: sum.case sum.inject)
      then have "c = Opened nr (check_win b2) \<and> b' = b2" by (simp only: prod.inject) blast
      then show ?thesis ..
    qed
    then obtain nr where c: "c = Opened nr (check_win b2)" and b': "b' = b2" by blast
    from reveal_square_status[of b1 x y] rs
    have "game_over b2 = game_over b1" "won b2 = won b1" "mine_positions b2 = mine_positions b1"
      by simp_all
    with c b' nm keep show ?thesis by (simp add: is_mine_def)
  qed
qed

lemma place_mines_card:
  assumes sv: "sample_valid sample b x y" and nm: "0 \<le> num_mines b"
    and enough: "num_mines b \<le> int (length (available_positions b x y))"
    and ok: "place_mines sample b x y = Inr b'"
  shows "int (card (mine_positions b')) = num_mines b'"
proof -
  from place_mines_values[OF sv ok]
  have b': "b' = b\<lparr>mine_positions := set (selected sample b x y), grid := grid b'\<rparr>" by blast
  have mp: "mine_positions b' = set (selected sample b x y)" by (subst b') simp
  have n: "num_mines b' = num_mines b" by (subst b') simp
  from sv have "distinct (selected sample b x y)"
    and "length (selected sample b x y)
           = nat (min (num_mines b) (int (length (available_positions b x y))))"
    by (simp_all add: sample_valid_def is_sample_def)
  with nm enough show ?thesis by (simp add: mp n distinct_card)
qed

text \<open>
  C4, as stated, fails. On the board \<open>place_mines\<close> builds from \<open>init 7 1 1\<close>,
  \<open>reveal_square(6, 0)\<close> reveals the mine and \<open>game_over\<close> is still \<open>False\<close>; and
  \<open>reveal_square(0, 0)\<close> reveals all six cells that are not mines, so that the
  number of revealed cells is \<open>width * height\<close> minus the number of mines and no
  mine is revealed, and \<open>won\<close> is still \<open>False\<close>.
\<close>

theorem reveal_mine_sets_no_status:
  "place_mines pick_last (init 7 1 1) 0 0 = Inr mined_board \<and>
   is_mine mined_board 6 0 \<and> (6, 0) \<notin> revealed mined_board \<and> (6, 0) \<notin> flagged mined_board \<and>
   reveal_square mined_board 6 0 = (Inr {(6, 0)}, mined_board\<lparr>revealed := {(6, 0)}\<rparr>) \<and>
   \<not> game_over (snd (reveal_square mined_board 6 0)) \<and>
   int (card (revealed (snd (reveal_square mined_board 0 0))))
     = width mined_board * height mined_board - int (card (mine_positions mined_board)) \<and>
   revealed (snd (reveal_square mined_board 0 0)) \<inter> mine_positions mined_board = {} \<and>
   \<not> won (snd (reveal_square mined_board 0 0))"
proof -
  have a: "is_mine mined_board 6 0" "(6, 0) \<notin> revealed mined_board" "(6, 0) \<notin> flagged mined_board"
    by (simp_all add: is_mine_def mined_board_def)
  have b: "reveal_square mined_board 6 0 = (Inr {(6, 0)}, mined_board\<lparr>revealed := {(6, 0)}\<rparr>)"
    by code_simp
  have c: "\<not> game_over (snd (reveal_square mined_board 6 0))"
    unfolding b by (simp add: mined_board_def)
  have d: "reveal_square mined_board 0 0
     = (Inr {(0, 0), (1, 0), (2, 0), (3, 0), (4, 0), (5, 0)},
        mined_board\<lparr>revealed := {(0, 0), (1, 0), (2, 0), (3, 0), (4, 0), (5, 0)}\<rparr>)"
    by code_simp
  have e: "int (card (revealed (snd (reveal_square mined_board 0 0))))
     = width mined_board * height mined_board - int (card (mine_positions mined_board))"
    "revealed (snd (reveal_square mined_board 0 0)) \<inter> mine_positions mined_board = {}"
    "\<not> won (snd (reveal_square mined_board 0 0))"
    unfolding d by (simp_all add: mined_board_def)
  from place_mines_mined_board a b c e show ?thesis by simp
qed

text \<open>
  C4, amended. \<open>reveal_square\<close> never changes \<open>game_over\<close> or \<open>won\<close>. Revealing
  an unrevealed, unflagged mine adds that one cell to \<open>revealed\<close>, returns it, and
  expands nothing. The status is decided by the click handler of the window: a click
  on an unflagged mine ends the game as lost without revealing the cell, and leaves
  \<open>game_over\<close> and \<open>won\<close> of the board as they were; any other click that reveals
  reports a win exactly when the number of revealed cells is \<open>width * height -
  num_mines\<close>. After \<open>place_mines\<close> with enough room for all mines, \<open>num_mines\<close>
  is the number of mine positions.
\<close>

theorem reveal_keeps_status:
  "game_over (snd (reveal_square b x y)) = game_over b \<and>
   won (snd (reveal_square b x y)) = won b \<and>
   ((x, y) \<notin> revealed b \<and> (x, y) \<notin> flagged b \<and> get_value b x y = Inr (- 1) \<longrightarrow>
      reveal_square b x y = (Inr {(x, y)}, b\<lparr>revealed := insert (x, y) (revealed b)\<rparr>)) \<and>
   (handle_click sample b x y = Inr (c, b') \<longrightarrow>
      (c = Exploded \<longleftrightarrow> (x, y) \<notin> flagged b \<and> is_mine b' x y) \<and>
      (c = Exploded \<longrightarrow> revealed b' = revealed b) \<and>
      game_over b' = game_over b \<and> won b' = won b \<and>
      (\<forall>nr w. c = Opened nr w \<longrightarrow>
         (w \<longleftrightarrow> int (card (revealed b')) = width b' * height b' - num_mines b'))) \<and>
   (sample_valid sample b x y \<and> 0 \<le> num_mines b \<and>
    num_mines b \<le> int (length (available_positions b x y)) \<and>
    place_mines sample b x y = Inr b'' \<longrightarrow>
      int (card (mine_positions b'')) = num_mines b'')"
  using reveal_square_status(1,2)[of b x y] reveal_square_mine[of x y b]
    handle_click_outcome[of sample b x y c b'] place_mines_card[of sample b x y b'']
  by (simp add: check_win_def)

theorem reveal_keeps_status_witness:
  "(6, 0) \<notin> revealed (mined_board\<lparr>first_move := False\<rparr>) \<and>
   (6, 0) \<notin> flagged (mined_board\<lparr>first_move := False\<rparr>) \<and>
   get_value (mined_board\<lparr>first_move := False\<rparr>) 6 0 = Inr (- 1) \<and>
   reveal_square (mined_board\<lparr>first_move := False\<rparr>) 6 0
     = (Inr {(6, 0)}, mined_board\<lparr>first_move := False, revealed := {(6, 0)}\<rparr>) \<and>
   handle_click pick_last (mined_board\<lparr>first_move := False\<rparr>) 6 0
     = Inr (Exploded, mined_board\<lparr>first_move := False\<rparr>) \<and>
   is_mine (mined_board\<lparr>first_move := False\<rparr>) 6 0 \<and>
   sample_valid pick_last (init 7 1 1) 0 0 \<and>
   place_mines pick_last (init 7 1 1) 0 0 = Inr mined_board \<and>
   int (card (mine_positions mined_board)) = num_mines mined_board \<and>
   handle_click pick_last (init 7 1 1) 0 0
     = Inr (Opened {(0, 0), (1, 0), (2, 0), (3, 0), (4, 0), (5, 0)} True,
            mined_board\<lparr>first_move := False,
              revealed := {(0, 0), (1, 0), (2, 0), (3, 0), (4, 0), (5, 0)}\<rparr>) \<and>
   int (card (revealed (mined_board\<lparr>first_move := False,
              revealed := {(0, 0), (1, 0), (2, 0), (3, 0), (4, 0), (5, 0)}\<rparr>))) = 7 * 1 - 1 \<and>
   \<not> won (mined_board\<lparr>first_move := False,
              revealed := {(0, 0), (1, 0), (2, 0), (3, 0), (4, 0), (5, 0)}\<rparr>)"
proof -
  have f: "(6, 0) \<notin> revealed (mined_board\<lparr>first_move := False\<rparr>) \<and>
           (6, 0) \<notin> flagged (mined_board\<lparr>first_move := False\<rparr>)"
    by (simp add: mined_board_def)
  have v: "get_value (mined_board\<lparr>first_move := False\<rparr>) 6 0 = Inr (- 1)" by code_simp
  have h: "handle_click pick_last (mined_board\<lparr>first_move := False\<rparr>) 6 0
     = Inr (Exploded, mined_board\<lparr>first_move := False\<rparr>)"
    by code_simp
  have sv: "sample_valid pick_last (init 7 1 1) 0 0" by code_simp
  have n: "0 \<le> num_mines (init 7 1 1) \<and>
     num_mines (init 7 1 1) \<le> int (length (available_positions (init 7 1 1) 0 0))"
    by code_simp
  have o: "handle_click pick_last (init 7 1 1) 0 0
     = Inr (Opened {(0, 0), (1, 0), (2, 0), (3, 0), (4, 0), (5, 0)} True,
            mined_board\<lparr>first_move := False,
              revealed := {(0, 0), (1, 0), (2, 0), (3, 0), (4, 0), (5, 0)}\<rparr>)"
    by code_simp
  have d: "width mined_board = 7" "height mined_board = 1" "num_mines mined_board = 1"
    "\<not> won mined_board"
    by (simp_all add: mined_board_def)
  have u: "(mined_board\<lparr>first_move := False\<rparr>)\<lparr>revealed :=
             insert (6, 0) (revealed (mined_board\<lparr>first_move := False\<rparr>))\<rparr>
           = mined_board\<lparr>first_move := False, revealed := {(6, 0)}\<rparr>"
    by (simp add: mined_board_def)
  from reveal_keeps_status [of "mined_board\<lparr>first_move := False\<rparr>" 6 0
        pick_last Exploded "mined_board\<lparr>first_move := False\<rparr>" mined_board]
     reveal_keeps_status [of "init 7 1 1" 0 0 pick_last
        "Opened {(0, 0), (1, 0), (2, 0), (3, 0), (4, 0), (5, 0)} True"
        "mined_board\<lparr>first_move := False,
              revealed := {(0, 0), (1, 0), (2, 0), (3, 0), (4, 0), (5, 0)}\<rparr>" mined_board]
     f v h sv n o place_mines_mined_board
  show ?thesis unfolding u by (simp add: d)
qed

section \<open>Saving and loading\<close>

lemma assign_key_None [simp]: "assign_key None rhs f (Inr u, b) = (Inl KeyError, b)"
  by (simp add: assign_key_def)

lemma assign_key_Inl [simp]: "assign_key entry rhs f (Inl e, b) = (Inl e, b)"
  by (simp add: assign_key_def)

lemma assign_key_plain [simp]: "assign_key (Some v) Inr f (Inr u, b) = (Inr (), f v b)"
  by (simp add: assign_key_def)

lemma tuples_cases:
  "tuples ps =
     (if Scalar \<in> set ps then Inl TypeError
      else Inr (concat (map (\<lambda>p. case p of Coord x y \<Rightarrow> [(x, y)] | Scalar \<Rightarrow> []) ps)))"
  by (induction ps rule: tuples.induct) simp_all

lemma cells_of_cases:
  "cells_of v = (if unreadable (Some v) then Inl TypeError else Inr (snapshot_cells (Some v)))"
  by (cases v) (simp_all add: unreadable_def snapshot_cells_def tuples_cases)

lemma assign_key_positions [simp]:
  "assign_key (Some v) cells_of f (Inr u, b) =
     (if unreadable (Some v) then (Inl TypeError, b) else (Inr (), f (snapshot_cells (Some v)) b))"
  by (simp add: assign_key_def cells_of_cases)

lemma unreadable_listed [simp]: "\<not> unreadable (Some (listed cs))"
  by (auto simp: unreadable_def listed_def)

lemma cells_listed [simp]: "snapshot_cells (Some (listed cs)) = set cs"
  by (induction cs) (auto simp: snapshot_cells_def listed_def)

lemma get_save_state_all_keys: "all_keys (get_save_state enum b)"
  by (simp add: all_keys_def get_save_state_def)

lemma load_get:
  assumes "set (enum (mine_positions b)) = mine_positions b"
    and "set (enum (revealed b)) = revealed b" and "set (enum (flagged b)) = flagged b"
  shows "load_save_state t (get_save_state enum b) = (Inr (), b\<lparr>time_started := time_started t\<rparr>)"
proof -
  have "t\<lparr>width := width b, height := height b, num_mines := num_mines b, grid := grid b,
       mine_positions := mine_positions b, first_move := first_move b,
       revealed := revealed b, flagged := flagged b, game_over := game_over b, won := won b,
       game_time := game_time b, mines_remaining := mines_remaining b\<rparr>
     = b\<lparr>time_started := time_started t\<rparr>"
    by (cases b, cases t) simp
  with assms show ?thesis
    by (simp add: load_save_state_def get_save_state_def)
qed

text \<open>
  \<open>time_started\<close> is the one attribute that is not saved; no operation reads it.
\<close>

lemma get_value_time_started [simp]: "get_value (b\<lparr>time_started := t\<rparr>) x y = get_value b x y"
  by (simp add: get_value_def)

lemma get_adjacent_squares_time_started [simp]:
  "get_adjacent_squares (b\<lparr>time_started := t\<rparr>) x y = get_adjacent_squares b x y"
  by (simp add: get_adjacent_squares_def)

lemma reveal_adjacent_time_started:
  "reveal_adjacent (b\<lparr>time_started := t\<rparr>) nr st adjs
     = apsnd (\<lambda>b. b\<lparr>time_started := t\<rparr>) (reveal_adjacent b nr st adjs)"
proof (induction b nr st adjs rule: reveal_adjacent.induct)
  case (1 b nr st)
  show ?case by simp
next
  case (2 b nr st ax ay rest)
  show ?case
  proof (cases "(ax, ay) \<notin> revealed b \<and> (ax, ay) \<notin> flagged b")
    case False
    with "2.IH"(2) show ?thesis by auto
  next
    case True
    let ?b' = "b\<lparr>revealed := insert (ax, ay) (revealed b)\<rparr>"
    have sw: "b\<lparr>time_started := t, revealed := insert (ax, ay) (revealed b)\<rparr> = ?b'\<lparr>time_started := t\<rparr>"
      by simp
    show ?thesis
    proof (cases "get_value ?b' ax ay")
      case (Inl e)
      with True show ?thesis by (simp add: Let_def sw del: board.update_convs)
    next
      case (Inr v)
      from "2.IH"(1)[OF True refl refl Inr] True Inr
      show ?thesis by (simp add: Let_def sw)
    qed
  qed
qed

lemma flood_time_started:
  "flood k (b\<lparr>time_started := t\<rparr>) nr st = apsnd (\<lambda>b. b\<lparr>time_started := t\<rparr>) (flood k b nr st)"
proof (induction k b nr st rule: flood.induct)
  case (1 k b nr st)
  show ?case
  proof (cases "st = []")
    case True
    then show ?thesis by (simp add: flood.simps)
  next
    case False
    obtain cx cy where pc: "pop_cell k st = (cx, cy)" by (cases "pop_cell k st")
    obtain r2 b2 where ra: "reveal_adjacent b nr (pop_rest k st) (get_adjacent_squares b cx cy) = (r2, b2)"
      by (cases "reveal_adjacent b nr (pop_rest k st) (get_adjacent_squares b cx cy)")
    have lhs: "flood k (b\<lparr>time_started := t\<rparr>) nr st =
       (case (r2, b2\<lparr>time_started := t\<rparr>) of (Inl e, b1) \<Rightarrow> (Inl e, b1)
         | (Inr (nr1, st1), b1) \<Rightarrow> flood k b1 nr1 st1)"
      using False pc ra
      by (subst flood.simps) (simp add: reveal_adjacent_time_started)
    have rhs: "flood k b nr st =
       (case (r2, b2) of (Inl e, b1) \<Rightarrow> (Inl e, b1)
         | (Inr (nr1, st1), b1) \<Rightarrow> flood k b1 nr1 st1)"
      using False pc ra by (subst flood.simps) simp
    show ?thesis
    proof (cases r2)
      case (Inl e)
      with lhs rhs show ?thesis by simp
    next
      case (Inr p)
      obtain nr1 st1 where p: "p = (nr1, st1)" by (cases p)
      from "1.IH"[OF False pc[symmetric] ra[symmetric] Inr p[symmetric]] lhs rhs Inr p
      show ?thesis by simp
    qed
  qed
qed

lemma reveal_with_time_started:
  "reveal_with k (b\<lparr>time_started := t\<rparr>) x y = apsnd (\<lambda>b. b\<lparr>time_started := t\<rparr>) (reveal_with k b x y)"
proof -
  have sw: "b\<lparr>time_started := t, revealed := insert (x, y) (revealed b)\<rparr>
            = b\<lparr>revealed := insert (x, y) (revealed b), time_started := t\<rparr>"
    by simp
  show ?thesis
    unfolding reveal_with_def Let_def
    by (simp add: sw flood_time_started split: sum.splits del: board.update_convs)
qed

lemma toggle_flag_time_started:
  "toggle_flag (b\<lparr>time_started := t\<rparr>) x y = apsnd (\<lambda>b. b\<lparr>time_started := t\<rparr>) (toggle_flag b x y)"
  by (simp add: toggle_flag_def)

lemma apply_op_time_started:
  "apply_op (b\<lparr>time_started := t\<rparr>) p = apsnd (\<lambda>b. b\<lparr>time_started := t\<rparr>) (apply_op b p)"
  by (cases p)
     (simp_all add: reveal_square_def reveal_with_time_started toggle_flag_time_started
        split: prod.splits)

lemma run_time_started:
  "run (b\<lparr>time_started := t\<rparr>) ps = apsnd (\<lambda>b. b\<lparr>time_started := t\<rparr>) (run b ps)"
proof (induction ps arbitrary: b)
  case Nil
  show ?case by simp
next
  case (Cons p ps)
  show ?case
    by (simp add: apply_op_time_started Cons.IH split: prod.splits)
qed

text \<open>
  C5. Loading the snapshot of a board \<open>b\<close> into any board \<open>t\<close> succeeds, and the
  loaded board behaves as \<open>b\<close> does under every sequence of \<open>reveal_square\<close> and
  \<open>toggle_flag\<close> calls: the same results call by call, and at the end the same
  board up to \<open>time_started\<close>, hence the same \<open>revealed\<close>, \<open>flagged\<close>,
  \<open>game_over\<close> and \<open>won\<close>. The order in which \<open>list\<close> enumerates a set is
  arbitrary; it lists exactly the elements of the set.
\<close>

theorem save_load_round_trip:
  assumes "set (enum (mine_positions b)) = mine_positions b"
    and "set (enum (revealed b)) = revealed b" and "set (enum (flagged b)) = flagged b"
  shows "fst (load_save_state t (get_save_state enum b)) = Inr () \<and>
         fst (run (snd (load_save_state t (get_save_state enum b))) ops) = fst (run b ops) \<and>
         snd (run (snd (load_save_state t (get_save_state enum b))) ops)
           = (snd (run b ops))\<lparr>time_started := time_started t\<rparr> \<and>
         revealed (snd (run (snd (load_save_state t (get_save_state enum b))) ops))
           = revealed (snd (run b ops)) \<and>
         flagged (snd (run (snd (load_save_state t (get_save_state enum b))) ops))
           = flagged (snd (run b ops)) \<and>
         game_over (snd (run (snd (load_save_state t (get_save_state enum b))) ops))
           = game_over (snd (run b ops)) \<and>
         won (snd (run (snd (load_save_state t (get_save_state enum b))) ops))
           = won (snd (run b ops))"
  unfolding load_get[OF assms] by (simp add: run_time_started)

theorem save_load_round_trip_witness:
  "set (listing (mine_positions played_board)) = mine_positions played_board \<and>
   set (listing (revealed played_board)) = revealed played_board \<and>
   set (listing (flagged played_board)) = flagged played_board \<and>
   fst (load_save_state (init 7 1 1) (get_save_state listing played_board)) = Inr () \<and>
   fst (run (snd (load_save_state (init 7 1 1) (get_save_state listing played_board)))
          [ToggleFlag 2 0, Reveal 2 0, Reveal 6 0])
     = fst (run played_board [ToggleFlag 2 0, Reveal 2 0, Reveal 6 0]) \<and>
   revealed (snd (run (snd (load_save_state (init 7 1 1) (get_save_state listing played_board)))
          [ToggleFlag 2 0, Reveal 2 0, Reveal 6 0]))
     = revealed (snd (run played_board [ToggleFlag 2 0, Reveal 2 0, Reveal 6 0]))"
proof -
  have h1: "set (listing (mine_positions played_board)) = mine_positions played_board" by code_simp
  have h2: "set (listing (revealed played_board)) = revealed played_board" by code_simp
  have h3: "set (listing (flagged played_board)) = flagged played_board" by code_simp
  from save_load_round_trip [OF h1 h2 h3, of "init 7 1 1" "[ToggleFlag 2 0, Reveal 2 0, Reveal 6 0]"]
    h1 h2 h3
  show ?thesis by simp
qed

text \<open>
  \<open>load_save_state\<close> stops at the first attribute whose right-hand side raises, with
  the attributes before it assigned; otherwise it assigns all twelve.
\<close>

lemma load_save_state_outcome:
  "load_save_state b s =
     (case first_failure s of
        None \<Rightarrow> (Inr (), restored 12 b s)
      | Some (n, e) \<Rightarrow> (Inl e, restored n b s))"
proof -
  define goal where "goal \<longleftrightarrow> load_save_state b s =
     (case first_failure s of
        None \<Rightarrow> (Inr (), restored 12 b s)
      | Some (n, e) \<Rightarrow> (Inl e, restored n b s))"
  note unfold = goal_def load_save_state_def first_failure_def checks_def restored_def
  have missing_width: goal
    if "key_width s = None"
    using that by (simp add: unfold)
  have missing_height: goal
    if "key_width s = Some v0"
      "key_height s = None"
    for v0
    using that by (simp add: unfold)
  have missing_num_mines: goal
    if "key_width s = Some v0"
      "key_height s = Some v1"
      "key_num_mines s = None"
    for v0 v1
    using that by (simp add: unfold)
  have missing_grid: goal
    if "key_width s = Some v0"
      "key_height s = Some v1"
      "key_num_mines s = Some v2"
      "key_grid s = None"
    for v0 v1 v2
    using that by (simp add: unfold)
  have missing_mine_positions: goal
    if "key_width s = Some v0"
      "key_height s = Some v1"
      "key_num_mines s = Some v2"
      "key_grid s = Some v3"
      "key_mine_positions s = None"
    for v0 v1 v2 v3
    using that by (simp add: unfold)
  have unreadable_mine_positions: goal
    if "key_width s = Some v0"
      "key_height s = Some v1"
      "key_num_mines s = Some v2"
      "key_grid s = Some v3"
      "key_mine_positions s = Some v4"
      "unreadable (Some v4)"
    for v0 v1 v2 v3 v4
    using that by (simp add: unfold)
  have missing_first_move: goal
    if "key_width s = Some v0"
      "key_height s = Some v1"
      "key_num_mines s = Some v2"
      "key_grid s = Some v3"
      "key_mine_positions s = Some v4"
      "\<not> unreadable (Some v4)"
      "key_first_move s = None"
    for v0 v1 v2 v3 v4
    using that by (simp add: unfold)
  have missing_revealed: goal
    if "key_width s = Some v0"
      "key_height s = Some v1"
      "key_num_mines s = Some v2"
      "key_grid s = Some v3"
      "key_mine_positions s = Some v4"
      "\<not> unreadable (Some v4)"
      "key_first_move s = Some v5"
      "key_revealed s = None"
    for v0 v1 v2 v3 v4 v5
    using that by (simp add: unfold)
  have unreadable_revealed: goal
    if "key_width s = Some v0"
      "key_height s = Some v1"
      "key_num_mines s = Some v2"
      "key_grid s = Some v3"
      "key_mine_positions s = Some v4"
      "\<not> unreadable (Some v4)"
      "key_first_move s = Some v5"
      "key_revealed s = Some v6"
      "unreadable (Some v6)"
    for v0 v1 v2 v3 v4 v5 v6
    using that by (simp add: unfold)
  have missing_flagged: goal
    if "key_width s = Some v0"
      "key_height s = Some v1"
      "key_num_mines s = Some v2"
      "key_grid s = Some v3"
      "key_mine_positions s = Some v4"
      "\<not> unreadable (Some v4)"
      "key_first_move s = Some v5"
      "key_revealed s = Some v6"
      "\<not> unreadable (Some v6)"
      "key_flagged s = None"
    for v0 v1 v2 v3 v4 v5 v6
    using that by (simp add: unfold)
  have unreadable_flagged: goal
    if "key_width s = Some v0"
      "key_height s = Some v1"
      "key_num_mines s = Some v2"
      "key_grid s = Some v3"
      "key_mine_positions s = Some v4"
      "\<not> unreadable (Some v4)"
      "key_first_move s = Some v5"
      "key_revealed s = Some v6"
      "\<not> unreadable (Some v6)"
      "key_flagged s = Some v7"
      "unreadable (Some v7)"
    for v0 v1 v2 v3 v4 v5 v6 v7
    using that by (simp add: unfold)
  have missing_game_over: goal
    if "key_width s = Some v0"
      "key_height s = Some v1"
      "key_num_mines s = Some v2"
      "key_grid s = Some v3"
      "key_mine_positions s = Some v4"
      "\<not> unreadable (Some v4)"
      "key_first_move s = Some v5"
      "key_revealed s = Some v6"
      "\<not> unreadable (Some v6)"
      "key_flagged s = Some v7"
      "\<not> unreadable (Some v7)"
      "key_game_over s = None"
    for v0 v1 v2 v3 v4 v5 v6 v7
    using that by (simp add: unfold)
  have missing_won: goal
    if "key_width s = Some v0"
      "key_height s = Some v1"
      "key_num_mines s = Some v2"
      "key_grid s = Some v3"
      "key_mine_positions s = Some v4"
      "\<not> unreadable (Some v4)"
      "key_first_move s = Some v5"
      "key_revealed s = Some v6"
      "\<not> unreadable (Some v6)"
      "key_flagged s = Some v7"
      "\<not> unreadable (Some v7)"
      "key_game_over s = Some v8"
      "key_won s = None"
    for v0 v1 v2 v3 v4 v5 v6 v7 v8
    using that by (simp add: unfold)
  have missing_game_time: goal
    if "key_width s = Some v0"
      "key_height s = Some v1"
      "key_num_mines s = Some v2"
      "key_grid s = Some v3"
      "key_mine_positions s = Some v4"
      "\<not> unreadable (Some v4)"
      "key_first_move s = Some v5"
      "key_revealed s = Some v6"
      "\<not> unreadable (Some v6)"
      "key_flagged s = Some v7"
      "\<not> unreadable (Some v7)"
      "key_game_over s = Some v8"
      "key_won s = Some v9"
      "key_game_time s = None"
    for v0 v1 v2 v3 v4 v5 v6 v7 v8 v9
    using that by (simp add: unfold)
  have missing_mines_remaining: goal
    if "key_width s = Some v0"
      "key_height s = Some v1"
      "key_num_mines s = Some v2"
      "key_grid s = Some v3"
      "key_mine_positions s = Some v4"
      "\<not> unreadable (Some v4)"
      "key_first_move s = Some v5"
      "key_revealed s = Some v6"
      "\<not> unreadable (Some v6)"
      "key_flagged s = Some v7"
      "\<not> unreadable (Some v7)"
      "key_game_over s = Some v8"
      "key_won s = Some v9"
      "key_game_time s = Some v10"
      "key_mines_remaining s = None"
    for v0 v1 v2 v3 v4 v5 v6 v7 v8 v9 v10
    using that by (simp add: unfold)
  have complete: goal
    if "key_width s = Some v0"
      "key_height s = Some v1"
      "key_num_mines s = Some v2"
      "key_grid s = Some v3"
      "key_mine_positions s = Some v4"
      "\<not> unreadable (Some v4)"
      "key_first_move s = Some v5"
      "key_revealed s = Some v6"
      "\<not> unreadable (Some v6)"
      "key_flagged s = Some v7"
      "\<not> unreadable (Some v7)"
      "key_game_over s = Some v8"
      "key_won s = Some v9"
      "key_game_time s = Some v10"
      "key_mines_remaining s = Some v11"
    for v0 v1 v2 v3 v4 v5 v6 v7 v8 v9 v10 v11
    using that by (simp add: unfold)
  have goal
  proof (rule ccontr)
    assume neg: "\<not> goal"
    from neg missing_width obtain v0 where k0: "key_width s = Some v0"
      by (cases "key_width s") auto
    from neg missing_height [OF k0] obtain v1 where k1: "key_height s = Some v1"
      by (cases "key_height s") auto
    from neg missing_num_mines [OF k0 k1] obtain v2 where k2: "key_num_mines s = Some v2"
      by (cases "key_num_mines s") auto
    from neg missing_grid [OF k0 k1 k2] obtain v3 where k3: "key_grid s = Some v3"
      by (cases "key_grid s") auto
    from neg missing_mine_positions [OF k0 k1 k2 k3] obtain v4 where k4: "key_mine_positions s = Some v4"
      by (cases "key_mine_positions s") auto
    from neg unreadable_mine_positions [OF k0 k1 k2 k3 k4] have r4: "\<not> unreadable (Some v4)" by blast
    from neg missing_first_move [OF k0 k1 k2 k3 k4 r4] obtain v5 where k5: "key_first_move s = Some v5"
      by (cases "key_first_move s") auto
    from neg missing_revealed [OF k0 k1 k2 k3 k4 r4 k5] obtain v6 where k6: "key_revealed s = Some v6"
      by (cases "key_revealed s") auto
    from neg unreadable_revealed [OF k0 k1 k2 k3 k4 r4 k5 k6] have r6: "\<not> unreadable (Some v6)" by blast
    from neg missing_flagged [OF k0 k1 k2 k3 k4 r4 k5 k6 r6] obtain v7 where k7: "key_flagged s = Some v7"
      by (cases "key_flagged s") auto
    from neg unreadable_flagged [OF k0 k1 k2 k3 k4 r4 k5 k6 r6 k7] have r7: "\<not> unreadable (Some v7)" by blast
    from neg missing_game_over [OF k0 k1 k2 k3 k4 r4 k5 k6 r6 k7 r7] obtain v8 where k8: "key_game_over s = Some v8"
      by (cases "key_game_over s") auto
    from neg missing_won [OF k0 k1 k2 k3 k4 r4 k5 k6 r6 k7 r7 k8] obtain v9 where k9: "key_won s = Some v9"
      by (cases "key_won s") auto
    from neg missing_game_time [OF k0 k1 k2 k3 k4 r4 k5 k6 r6 k7 r7 k8 k9] obtain v10 where k10: "key_game_time s = Some v10"
      by (cases "key_game_time s") auto
    from neg missing_mines_remaining [OF k0 k1 k2 k3 k4 r4 k5 k6 r6 k7 r7 k8 k9 k10] obtain v11 where k11: "key_mines_remaining s = Some v11"
      by (cases "key_mines_remaining s") auto
    from neg complete [OF k0 k1 k2 k3 k4 r4 k5 k6 r6 k7 r7 k8 k9 k10 k11] show False by blast
  qed
  then show ?thesis by (simp only: goal_def)
qed

lemma first_failure_None:
  "first_failure s = None \<longleftrightarrow>
     all_keys s \<and> \<not> unreadable (key_mine_positions s) \<and> \<not> unreadable (key_revealed s) \<and>
     \<not> unreadable (key_flagged s)"
  by (auto simp: first_failure_def checks_def all_keys_def)

text \<open>
  C7, as stated, fails. The snapshot \<open>corrupt_snapshot\<close> has a grid of one row of one
  entry with \<open>width\<close> and \<open>height\<close> 3, and three mine positions with \<open>num_mines\<close>
  1; \<open>load_save_state\<close> accepts it without raising and the board is overwritten.
\<close>

theorem load_accepts_corrupt_snapshot:
  "\<not> snapshot_consistent corrupt_snapshot \<and>
   fst (load_save_state (init 2 2 1) corrupt_snapshot) = Inr () \<and>
   snd (load_save_state (init 2 2 1) corrupt_snapshot) \<noteq> init 2 2 1 \<and>
   grid (snd (load_save_state (init 2 2 1) corrupt_snapshot)) = [[0]] \<and>
   width (snd (load_save_state (init 2 2 1) corrupt_snapshot)) = 3"
proof -
  have a: "\<not> snapshot_consistent corrupt_snapshot"
    by (simp add: snapshot_consistent_def corrupt_snapshot_def)
  have w: "width (init 2 2 1) = 2" by (simp add: init_def initialize_grid_def)
  have b: "width (snd (load_save_state (init 2 2 1) corrupt_snapshot)) = 3"
    "grid (snd (load_save_state (init 2 2 1) corrupt_snapshot)) = [[0]]"
    "fst (load_save_state (init 2 2 1) corrupt_snapshot) = Inr ()"
    by (simp_all add: load_save_state_def corrupt_snapshot_def unreadable_def)
  from b(1) w have "snd (load_save_state (init 2 2 1) corrupt_snapshot) \<noteq> init 2 2 1" by auto
  with a b show ?thesis by simp
qed

text \<open>
  C7, amended. \<open>load_save_state\<close> does not check the dimensions or the mine count of
  a snapshot. It runs its twelve assignments in order and stops at the first attribute
  whose key is missing, with \<open>KeyError\<close>, or whose position entry is not a list of
  pairs, with \<open>TypeError\<close>; the attributes before that one have then been overwritten
  with the entries of the snapshot, and that attribute and the later ones are as they
  were. When there is no such attribute, that is when all twelve keys are present and
  the three position entries are lists of pairs, it returns normally and all twelve
  attributes are overwritten, whatever the shape of the grid and the number of mine
  positions.
\<close>

theorem load_save_state_unchecked:
  "load_save_state b s =
     (case first_failure s of
        None \<Rightarrow> (Inr (), restored 12 b s)
      | Some (n, e) \<Rightarrow> (Inl e, restored n b s)) \<and>
   (first_failure s = None \<longleftrightarrow>
      all_keys s \<and> \<not> unreadable (key_mine_positions s) \<and> \<not> unreadable (key_revealed s) \<and>
      \<not> unreadable (key_flagged s)) \<and>
   (key_width s \<noteq> None \<and> key_height s \<noteq> None \<and> key_num_mines s \<noteq> None \<and>
    key_grid s \<noteq> None \<and> key_mine_positions s \<noteq> None \<and>
    \<not> unreadable (key_mine_positions s) \<and> key_first_move s = None \<longrightarrow>
      load_save_state b s
        = (Inl KeyError,
           b\<lparr>width := the (key_width s), height := the (key_height s),
             num_mines := the (key_num_mines s), grid := the (key_grid s),
             mine_positions := snapshot_cells (key_mine_positions s)\<rparr>))"
proof -
  have partial: "load_save_state b s
        = (Inl KeyError,
           b\<lparr>width := the (key_width s), height := the (key_height s),
             num_mines := the (key_num_mines s), grid := the (key_grid s),
             mine_positions := snapshot_cells (key_mine_positions s)\<rparr>)"
    if h: "key_width s \<noteq> None \<and> key_height s \<noteq> None \<and> key_num_mines s \<noteq> None \<and>
        key_grid s \<noteq> None \<and> key_mine_positions s \<noteq> None \<and>
        \<not> unreadable (key_mine_positions s) \<and> key_first_move s = None"
  proof -
    from h obtain w ht n g m where k: "key_width s = Some w" "key_height s = Some ht"
      "key_num_mines s = Some n" "key_grid s = Some g" "key_mine_positions s = Some m"
      by auto
    from h k have "\<not> unreadable (Some m)" "key_first_move s = None" by simp_all
    with k show ?thesis by (simp add: load_save_state_def)
  qed
  with load_save_state_outcome first_failure_None show ?thesis by blast
qed

theorem load_save_state_unchecked_witness:
  "first_failure corrupt_snapshot = None \<and>
   load_save_state (init 2 2 1) corrupt_snapshot =
     (Inr (), \<lparr>width = 3, height = 3, num_mines = 1, grid = [[0]],
        mine_positions = {(0, 0), (1, 1), (5, 5)}, first_move = False, revealed = {}, flagged = {},
        game_over = False, won = False, time_started = None, game_time = 0, mines_remaining = 7\<rparr>) \<and>
   first_failure (corrupt_snapshot\<lparr>key_won := None\<rparr>) = Some (9, KeyError) \<and>
   load_save_state (init 2 2 1) (corrupt_snapshot\<lparr>key_won := None\<rparr>) =
     (Inl KeyError, \<lparr>width = 3, height = 3, num_mines = 1, grid = [[0]],
        mine_positions = {(0, 0), (1, 1), (5, 5)}, first_move = False, revealed = {}, flagged = {},
        game_over = False, won = False, time_started = None, game_time = 0, mines_remaining = 1\<rparr>) \<and>
   first_failure (corrupt_snapshot\<lparr>key_revealed := Some (Positions [Coord 0 0, Scalar])\<rparr>)
     = Some (6, TypeError) \<and>
   load_save_state (init 2 2 1)
       (corrupt_snapshot\<lparr>key_revealed := Some (Positions [Coord 0 0, Scalar])\<rparr>) =
     (Inl TypeError, \<lparr>width = 3, height = 3, num_mines = 1, grid = [[0]],
        mine_positions = {(0, 0), (1, 1), (5, 5)}, first_move = False, revealed = {}, flagged = {},
        game_over = False, won = False, time_started = None, game_time = 0, mines_remaining = 1\<rparr>) \<and>
   load_save_state (init 2 2 1) (corrupt_snapshot\<lparr>key_first_move := None\<rparr>) =
     (Inl KeyError, \<lparr>width = 3, height = 3, num_mines = 1, grid = [[0]],
        mine_positions = {(0, 0), (1, 1), (5, 5)}, first_move = True, revealed = {}, flagged = {},
        game_over = False, won = False, time_started = None, game_time = 0, mines_remaining = 1\<rparr>)"
proof -
  have f: "first_failure corrupt_snapshot = None"
    "first_failure (corrupt_snapshot\<lparr>key_won := None\<rparr>) = Some (9, KeyError)"
    "first_failure (corrupt_snapshot\<lparr>key_revealed := Some (Positions [Coord 0 0, Scalar])\<rparr>)
       = Some (6, TypeError)"
    by (simp_all add: first_failure_def checks_def corrupt_snapshot_def unreadable_def)
  have r: "restored 12 (init 2 2 1) corrupt_snapshot =
      \<lparr>width = 3, height = 3, num_mines = 1, grid = [[0]],
        mine_positions = {(0, 0), (1, 1), (5, 5)}, first_move = False, revealed = {}, flagged = {},
        game_over = False, won = False, time_started = None, game_time = 0, mines_remaining = 7\<rparr>"
    "restored 9 (init 2 2 1) (corrupt_snapshot\<lparr>key_won := None\<rparr>) =
      \<lparr>width = 3, height = 3, num_mines = 1, grid = [[0]],
        mine_positions = {(0, 0), (1, 1), (5, 5)}, first_move = False, revealed = {}, flagged = {},
        game_over = False, won = False, time_started = None, game_time = 0, mines_remaining = 1\<rparr>"
    "restored 6 (init 2 2 1)
        (corrupt_snapshot\<lparr>key_revealed := Some (Positions [Coord 0 0, Scalar])\<rparr>) =
      \<lparr>width = 3, height = 3, num_mines = 1, grid = [[0]],
        mine_positions = {(0, 0), (1, 1), (5, 5)}, first_move = False, revealed = {}, flagged = {},
        game_over = False, won = False, time_started = None, game_time = 0, mines_remaining = 1\<rparr>"
    by (simp_all add: restored_def corrupt_snapshot_def snapshot_cells_def init_def initialize_grid_def
          insert_commute)
  have p: "(init 2 2 1)\<lparr>width := the (key_width (corrupt_snapshot\<lparr>key_first_move := None\<rparr>)),
        height := the (key_height (corrupt_snapshot\<lparr>key_first_move := None\<rparr>)),
        num_mines := the (key_num_mines (corrupt_snapshot\<lparr>key_first_move := None\<rparr>)),
        grid := the (key_grid (corrupt_snapshot\<lparr>key_first_move := None\<rparr>)),
        mine_positions := snapshot_cells (key_mine_positions (corrupt_snapshot\<lparr>key_first_move := None\<rparr>))\<rparr>
      = \<lparr>width = 3, height = 3, num_mines = 1, grid = [[0]],
        mine_positions = {(0, 0), (1, 1), (5, 5)}, first_move = True, revealed = {}, flagged = {},
        game_over = False, won = False, time_started = None, game_time = 0, mines_remaining = 1\<rparr>"
    by (simp add: corrupt_snapshot_def snapshot_cells_def init_def initialize_grid_def insert_commute)
  have h: "key_width (corrupt_snapshot\<lparr>key_first_move := None\<rparr>) \<noteq> None \<and>
      key_height (corrupt_snapshot\<lparr>key_first_move := None\<rparr>) \<noteq> None \<and>
      key_num_mines (corrupt_snapshot\<lparr>key_first_move := None\<rparr>) \<noteq> None \<and>
      key_grid (corrupt_snapshot\<lparr>key_first_move := None\<rparr>) \<noteq> None \<and>
      key_mine_positions (corrupt_snapshot\<lparr>key_first_move := None\<rparr>) \<noteq> None \<and>
      \<not> unreadable (key_mine_positions (corrupt_snapshot\<lparr>key_first_move := None\<rparr>)) \<and>
      key_first_move (corrupt_snapshot\<lparr>key_first_move := None\<rparr>) = None"
    by (simp add: corrupt_snapshot_def unreadable_def)
  have a: "load_save_state (init 2 2 1) corrupt_snapshot
      = (Inr (), restored 12 (init 2 2 1) corrupt_snapshot)"
    using load_save_state_unchecked [of "init 2 2 1" corrupt_snapshot] by (simp add: f)
  have b: "load_save_state (init 2 2 1) (corrupt_snapshot\<lparr>key_won := None\<rparr>)
      = (Inl KeyError, restored 9 (init 2 2 1) (corrupt_snapshot\<lparr>key_won := None\<rparr>))"
    using load_save_state_unchecked [of "init 2 2 1" "corrupt_snapshot\<lparr>key_won := None\<rparr>"]
    by (simp add: f)
  have c: "load_save_state (init 2 2 1)
        (corrupt_snapshot\<lparr>key_revealed := Some (Positions [Coord 0 0, Scalar])\<rparr>)
      = (Inl TypeError, restored 6 (init 2 2 1)
          (corrupt_snapshot\<lparr>key_revealed := Some (Positions [Coord 0 0, Scalar])\<rparr>))"
    using load_save_state_unchecked [of "init 2 2 1"
      "corrupt_snapshot\<lparr>key_revealed := Some (Positions [Coord 0 0, Scalar])\<rparr>"]
    by (simp add: f)
  have d: "load_save_state (init 2 2 1) (corrupt_snapshot\<lparr>key_first_move := None\<rparr>)
      = (Inl KeyError,
         (init 2 2 1)\<lparr>width := the (key_width (corrupt_snapshot\<lparr>key_first_move := None\<rparr>)),
        height := the (key_height (corrupt_snapshot\<lparr>key_first_move := None\<rparr>)),
        num_mines := the (key_num_mines (corrupt_snapshot\<lparr>key_first_move := None\<rparr>)),
        grid := the (key_grid (corrupt_snapshot\<lparr>key_first_move := None\<rparr>)),
        mine_positions := snapshot_cells (key_mine_positions (corrupt_snapshot\<lparr>key_first_move := None\<rparr>))\<rparr>)"
    using load_save_state_unchecked [of "init 2 2 1" "corrupt_snapshot\<lparr>key_first_move := None\<rparr>"] h
    by blast
  from f a b c d show ?thesis unfolding r p by simp
qed

section \<open>Coordinates outside the grid\<close>

lemma py_get_range:
  "py_get xs i = (if - int (length xs) \<le> i \<and> i < int (length xs)
                  then Inr (xs ! nat (i mod int (length xs))) else Inl IndexError)"
proof (cases "0 \<le> i")
  case True
  then show ?thesis by (simp add: py_get_def py_index_def)
next
  case False
  then have neg: "i < 0" by simp
  show ?thesis
  proof (cases "- int (length xs) \<le> i")
    case True
    with neg have "(int (length xs) + i) mod int (length xs) = int (length xs) + i"
      by (intro mod_pos_pos_trivial) simp_all
    then have "i mod int (length xs) = int (length xs) + i"
      by (simp only: mod_add_self1)
    with True neg show ?thesis by (simp add: py_get_def py_index_def)
  next
    case False
    with neg show ?thesis by (simp add: py_get_def py_index_def)
  qed
qed

lemma get_value_range:
  assumes ws: "well_shaped b"
  shows "get_value b x y = (if index_ok b x y
           then Inr (grid b ! nat (y mod height b) ! nat (x mod width b)) else Inl IndexError)"
proof (cases "- height b \<le> y \<and> y < height b")
  case False
  with ws have "\<not> (- int (length (grid b)) \<le> y \<and> y < int (length (grid b)))"
    by (auto simp: well_shaped_def)
  with False show ?thesis by (simp add: get_value_def py_get_range index_ok_def)
next
  case True
  then have hpos: "0 < height b" by linarith
  with ws have len: "int (length (grid b)) = height b" by (simp add: well_shaped_def)
  have "0 \<le> y mod height b" "y mod height b < height b" using hpos by simp_all
  with len have "nat (y mod height b) < length (grid b)" by linarith
  then have "grid b ! nat (y mod height b) \<in> set (grid b)" by simp
  with ws have rl: "length (grid b ! nat (y mod height b)) = nat (width b)"
    by (simp add: well_shaped_def)
  have row: "py_get (grid b) y = Inr (grid b ! nat (y mod height b))"
    using True len by (simp add: py_get_range)
  show ?thesis
  proof (cases "- width b \<le> x \<and> x < width b")
    case xin: True
    then have "0 < width b" by linarith
    with rl have "int (length (grid b ! nat (y mod height b))) = width b" by simp
    with xin have "py_get (grid b ! nat (y mod height b)) x
        = Inr (grid b ! nat (y mod height b) ! nat (x mod width b))"
      by (simp add: py_get_range)
    with xin True show ?thesis by (simp add: get_value_def row index_ok_def)
  next
    case xout: False
    then have "\<not> (- int (nat (width b)) \<le> x \<and> x < int (nat (width b)))" by auto
    with rl have "py_get (grid b ! nat (y mod height b)) x = Inl IndexError"
      by (simp add: py_get_range)
    with xout show ?thesis by (auto simp: get_value_def row index_ok_def)
  qed
qed

lemma reveal_square_cases:
  assumes ws: "well_shaped b" and fresh: "(x, y) \<notin> revealed b" "(x, y) \<notin> flagged b"
  shows "reveal_square b x y =
           (if \<not> index_ok b x y
            then (Inl IndexError, b\<lparr>revealed := insert (x, y) (revealed b)\<rparr>)
            else if grid b ! nat (y mod height b) ! nat (x mod width b) = 0
            then (Inr (region b (x, y)), b\<lparr>revealed := revealed b \<union> region b (x, y)\<rparr>)
            else (Inr {(x, y)}, b\<lparr>revealed := insert (x, y) (revealed b)\<rparr>))"
proof (cases "index_ok b x y")
  case False
  with get_value_range[OF ws, of x y] have "get_value b x y = Inl IndexError" by simp
  with fresh False show ?thesis by (simp add: reveal_square_def reveal_with_def Let_def)
next
  case True
  define v where "v = grid b ! nat (y mod height b) ! nat (x mod width b)"
  from True get_value_range[OF ws, of x y] have gv: "get_value b x y = Inr v"
    by (simp add: v_def)
  show ?thesis
  proof (cases "v = 0")
    case z: True
    from reveal_with_region[OF ws fresh gv[unfolded z], of LIFO] True z
    show ?thesis by (simp add: reveal_square_def v_def)
  next
    case False
    with fresh gv True show ?thesis
      by (simp add: reveal_square_def reveal_with_def Let_def v_def)
  qed
qed

lemma corner_board_wrapped_reveal:
  "reveal_square corner_board (- 1) (- 1)
     = (Inr {(- 1, - 1), (0, 0), (1, 0), (0, 1), (1, 1)},
        corner_board\<lparr>revealed := {(- 1, - 1), (0, 0), (1, 0), (0, 1), (1, 1)}\<rparr>)"
  by code_simp

text \<open>
  C6, as stated, fails. On a fresh 3 by 3 board \<open>toggle_flag(7, 7)\<close> returns \<open>True\<close>
  and flags the cell, \<open>is_mine(7, 7)\<close> returns \<open>False\<close>, and \<open>get_value(-1, -1)\<close>
  returns the number of the last cell of the last row; on the board of one row and
  seven columns \<open>reveal_square(-2, -1)\<close> returns normally and adds \<open>(-2, -1)\<close> to
  \<open>revealed\<close>.
\<close>

theorem out_of_bounds_accepted:
  "(7, 7) \<notin> grid_cells (init 3 3 1) \<and>
   toggle_flag (init 3 3 1) 7 7 = (True, (init 3 3 1)\<lparr>flagged := {(7, 7)}, mines_remaining := 0\<rparr>) \<and>
   \<not> is_mine (init 3 3 1) 7 7 \<and>
   (- 1, - 1) \<notin> grid_cells (init 3 3 1) \<and>
   get_value (init 3 3 1) (- 1) (- 1) = Inr 0 \<and>
   (- 2, - 1) \<notin> grid_cells mined_board \<and>
   reveal_square mined_board (- 2) (- 1) = (Inr {(- 2, - 1)}, mined_board\<lparr>revealed := {(- 2, - 1)}\<rparr>)"
proof -
  have a: "(7, 7) \<notin> grid_cells (init 3 3 1)" "(- 1, - 1) \<notin> grid_cells (init 3 3 1)"
    "(- 2, - 1) \<notin> grid_cells mined_board"
    by (simp_all add: grid_cells_def init_def initialize_grid_def mined_board_def)
  have b: "toggle_flag (init 3 3 1) 7 7
             = (True, (init 3 3 1)\<lparr>flagged := {(7, 7)}, mines_remaining := 0\<rparr>)"
    by (simp add: toggle_flag_def init_def initialize_grid_def)
  have c: "\<not> is_mine (init 3 3 1) 7 7" by (simp add: is_mine_def init_def initialize_grid_def)
  have d: "get_value (init 3 3 1) (- 1) (- 1) = Inr 0" by code_simp
  have e: "reveal_square mined_board (- 2) (- 1)
             = (Inr {(- 2, - 1)}, mined_board\<lparr>revealed := {(- 2, - 1)}\<rparr>)"
    by code_simp
  from a b c d e show ?thesis by simp
qed

text \<open>
  C6, amended. No operation checks its coordinates. \<open>toggle_flag\<close> and \<open>is_mine\<close>
  never fail, on any board: they treat a coordinate outside the grid like any other
  pair, so \<open>toggle_flag\<close> flags it and returns \<open>True\<close> when it is neither revealed
  nor flagged, and \<open>is_mine\<close> is membership in \<open>mine_positions\<close>. On a board whose
  grid has \<open>height\<close> rows of \<open>width\<close> entries, \<open>get_value\<close> raises \<open>IndexError\<close>
  exactly when \<open>x\<close> is outside \<open>-width .. width - 1\<close> or \<open>y\<close> is outside
  \<open>-height .. height - 1\<close>, and otherwise returns the number of the cell at
  \<open>x mod width\<close>, \<open>y mod height\<close>. On such a board \<open>reveal_square\<close> on a pair that
  is neither revealed nor flagged raises \<open>IndexError\<close> in exactly the same cases,
  after it has added the pair to \<open>revealed\<close>; otherwise it returns normally: the
  pair alone when the number read is not 0, and the cells the flood expansion reaches
  from the pair when it is 0, in both cases exactly the cells added to \<open>revealed\<close>.
\<close>

theorem coordinates_unchecked:
  "(fst (toggle_flag b x y) \<longleftrightarrow> (x, y) \<notin> revealed b \<and> (x, y) \<notin> flagged b) \<and>
   ((x, y) \<notin> revealed b \<and> (x, y) \<notin> flagged b \<longrightarrow>
      toggle_flag b x y
        = (True, b\<lparr>flagged := insert (x, y) (flagged b),
                    mines_remaining := mines_remaining b - 1\<rparr>)) \<and>
   (is_mine b x y \<longleftrightarrow> (x, y) \<in> mine_positions b) \<and>
   (well_shaped b \<longrightarrow>
      get_value b x y
        = (if index_ok b x y
           then Inr (grid b ! nat (y mod height b) ! nat (x mod width b)) else Inl IndexError) \<and>
      ((x, y) \<notin> revealed b \<and> (x, y) \<notin> flagged b \<longrightarrow>
         reveal_square b x y =
           (if \<not> index_ok b x y
            then (Inl IndexError, b\<lparr>revealed := insert (x, y) (revealed b)\<rparr>)
            else if grid b ! nat (y mod height b) ! nat (x mod width b) = 0
            then (Inr (region b (x, y)), b\<lparr>revealed := revealed b \<union> region b (x, y)\<rparr>)
            else (Inr {(x, y)}, b\<lparr>revealed := insert (x, y) (revealed b)\<rparr>))))"
proof -
  have 1: "fst (toggle_flag b x y) \<longleftrightarrow> (x, y) \<notin> revealed b \<and> (x, y) \<notin> flagged b"
    by (simp add: toggle_flag_def)
  have 2: "toggle_flag b x y
        = (True, b\<lparr>flagged := insert (x, y) (flagged b),
                    mines_remaining := mines_remaining b - 1\<rparr>)"
    if "(x, y) \<notin> revealed b \<and> (x, y) \<notin> flagged b"
    using that by (simp add: toggle_flag_def)
  have 3: "is_mine b x y \<longleftrightarrow> (x, y) \<in> mine_positions b" by (simp add: is_mine_def)
  have 4: "get_value b x y
        = (if index_ok b x y
           then Inr (grid b ! nat (y mod height b) ! nat (x mod width b)) else Inl IndexError)"
    if "well_shaped b" using that by (rule get_value_range)
  have 5: "reveal_square b x y =
           (if \<not> index_ok b x y
            then (Inl IndexError, b\<lparr>revealed := insert (x, y) (revealed b)\<rparr>)
            else if grid b ! nat (y mod height b) ! nat (x mod width b) = 0
            then (Inr (region b (x, y)), b\<lparr>revealed := revealed b \<union> region b (x, y)\<rparr>)
            else (Inr {(x, y)}, b\<lparr>revealed := insert (x, y) (revealed b)\<rparr>))"
    if "well_shaped b" "(x, y) \<notin> revealed b \<and> (x, y) \<notin> flagged b"
    using that reveal_square_cases[of b x y] by blast
  from 1 2 3 4 5 show ?thesis by blast
qed

theorem coordinates_unchecked_witness:
  "well_shaped mined_board \<and>
   toggle_flag mined_board 9 4
     = (True, mined_board\<lparr>flagged := {(9, 4)}, mines_remaining := 0\<rparr>) \<and>
   \<not> is_mine mined_board 9 4 \<and>
   \<not> index_ok mined_board 9 4 \<and> get_value mined_board 9 4 = Inl IndexError \<and>
   reveal_square mined_board 9 4 = (Inl IndexError, mined_board\<lparr>revealed := {(9, 4)}\<rparr>) \<and>
   index_ok mined_board (- 2) (- 1) \<and> get_value mined_board (- 2) (- 1) = Inr 1 \<and>
   reveal_square mined_board (- 2) (- 1)
     = (Inr {(- 2, - 1)}, mined_board\<lparr>revealed := {(- 2, - 1)}\<rparr>) \<and>
   well_shaped corner_board \<and> index_ok corner_board (- 1) (- 1) \<and>
   get_value corner_board (- 1) (- 1) = Inr 0 \<and>
   region corner_board (- 1, - 1) = {(- 1, - 1), (0, 0), (1, 0), (0, 1), (1, 1)} \<and>
   reveal_square corner_board (- 1) (- 1)
     = (Inr {(- 1, - 1), (0, 0), (1, 0), (0, 1), (1, 1)},
        corner_board\<lparr>revealed := {(- 1, - 1), (0, 0), (1, 0), (0, 1), (1, 1)}\<rparr>)"
proof -
  have ws: "well_shaped mined_board" "well_shaped corner_board" by code_simp+
  have f: "(9, 4) \<notin> revealed mined_board \<and> (9, 4) \<notin> flagged mined_board"
    "(- 2, - 1) \<notin> revealed mined_board \<and> (- 2, - 1) \<notin> flagged mined_board"
    "(- 1, - 1) \<notin> revealed corner_board \<and> (- 1, - 1) \<notin> flagged corner_board"
    by (simp_all add: mined_board_def corner_board_def)
  have i: "\<not> index_ok mined_board 9 4" "index_ok mined_board (- 2) (- 1)"
    "index_ok corner_board (- 1) (- 1)"
    by (simp_all add: index_ok_def mined_board_def corner_board_def)
  have v: "grid mined_board ! nat (- 1 mod height mined_board) ! nat (- 2 mod width mined_board) = 1"
    "grid corner_board ! nat (- 1 mod height corner_board) ! nat (- 1 mod width corner_board) = 0"
    by (simp_all add: mined_board_def corner_board_def)
  have r: "revealed mined_board = {}" "flagged mined_board = {}" "mines_remaining mined_board = 1"
    "mine_positions mined_board = {(6, 0)}"
    by (simp_all add: mined_board_def)
  from coordinates_unchecked [of mined_board 9 4] coordinates_unchecked [of mined_board "- 2" "- 1"]
    coordinates_unchecked [of corner_board "- 1" "- 1"] corner_board_wrapped_reveal ws f i v
  show ?thesis by (simp add: r)
qed

end
